theory Spec2Isabelle
  imports Main
begin

section \<open>The settings rewriter of \<^verbatim>\<open>.vscode/tools/setup_vscode.py\<close>\<close>

text \<open>
  The script rewrites two fields of an editor settings document by textual search and
  replace, stamps a header on it and writes it out; it also copies a launch template when
  the destination is absent. This theory embeds the script function by function.

  A Python \<^verbatim>\<open>str\<close> is modelled as a \<^typ>\<open>string\<close>: a list of characters, each standing for
  one code point below 256. The file system is a flat map from path strings to the text
  that \<^verbatim>\<open>open(path).read()\<close> returns, and a text that is written is the text a later read
  returns; directories, permissions and decoding errors are outside the model. Paths are
  joined as on POSIX.
\<close>

subsection \<open>Characters\<close>

definition dquote :: char where
  "dquote = CHR 0x22"

definition backslash :: char where
  "backslash = CHR 0x5C"

definition tab :: char where
  "tab = CHR 0x09"

definition newline :: char where
  "newline = CHR 0x0A"

definition carriage_return :: char where
  "carriage_return = CHR 0x0D"

definition is_space :: "char \<Rightarrow> bool" where
  \<comment> \<open>\<^verbatim>\<open>str.isspace\<close> on the code points below 256\<close>
  "is_space c = ((of_char c :: nat) \<in> {9, 10, 11, 12, 13, 28, 29, 30, 31, 32, 133, 160})"

definition is_digit :: "char \<Rightarrow> bool" where
  "is_digit c = (c \<in> set ''0123456789'')"

definition is_octdigit :: "char \<Rightarrow> bool" where
  "is_octdigit c = (c \<in> set ''01234567'')"

definition is_ascii_letter :: "char \<Rightarrow> bool" where
  "is_ascii_letter c =
     (c \<in> set ''abcdefghijklmnopqrstuvwxyzABCDEFGHIJKLMNOPQRSTUVWXYZ'')"

definition digit_val :: "char \<Rightarrow> nat" where
  "digit_val c = of_char c - 48"

subsection \<open>String methods\<close>

definition starts_with :: "string \<Rightarrow> string \<Rightarrow> bool" where
  \<comment> \<open>\<^verbatim>\<open>s.startswith(p)\<close>\<close>
  "starts_with p s = (take (length p) s = p)"

definition ends_with :: "string \<Rightarrow> string \<Rightarrow> bool" where
  \<comment> \<open>\<^verbatim>\<open>s.endswith(p)\<close>\<close>
  "ends_with p s = (length p \<le> length s \<and> drop (length s - length p) s = p)"

text \<open>
  \<^verbatim>\<open>s.split(sep)\<close> for a non-empty separator scans from the left and cuts at each
  occurrence that does not overlap the previous one. (Python raises on an empty separator;
  the script only passes constants, and the guard below then never cuts.)
\<close>

function split_from :: "string \<Rightarrow> string \<Rightarrow> string \<Rightarrow> string list" where
  "split_from sep cur s =
     (if sep \<noteq> [] \<and> starts_with sep s then cur # split_from sep [] (drop (length sep) s)
      else (case s of
              [] \<Rightarrow> [cur]
            | c # cs \<Rightarrow> split_from sep (cur @ [c]) cs))"
  by pat_completeness auto
termination
proof (relation "measure (\<lambda>(sep, cur, s). length s)", goal_cases)
  case 1
  show ?case by simp
next
  case (2 sep cur s)
  then have "length (take (length sep) s) = length sep" and "0 < length sep"
    by (simp_all add: starts_with_def)
  then have "length sep \<le> length s" and "0 < length sep"
    by simp_all
  then have "length s - length sep < length s"
    by arith
  then show ?case by simp
next
  case (3 sep cur s c cs)
  then show ?case by simp
qed

declare split_from.simps [simp del]

definition str_split :: "string \<Rightarrow> string \<Rightarrow> string list" where
  "str_split sep s = split_from sep [] s"

definition strip_with :: "(char \<Rightarrow> bool) \<Rightarrow> string \<Rightarrow> string" where
  "strip_with P s = dropWhile P (rev (dropWhile P (rev s)))"

definition str_strip :: "string \<Rightarrow> string" where
  \<comment> \<open>\<^verbatim>\<open>s.strip()\<close>\<close>
  "str_strip = strip_with is_space"

definition str_strip_chars :: "string \<Rightarrow> string \<Rightarrow> string" where
  \<comment> \<open>\<^verbatim>\<open>s.strip(chars)\<close>\<close>
  "str_strip_chars chars = strip_with (\<lambda>c. c \<in> set chars)"

fun str_join :: "string \<Rightarrow> string list \<Rightarrow> string" where
  \<comment> \<open>\<^verbatim>\<open>sep.join(xs)\<close>\<close>
  "str_join sep [] = []"
| "str_join sep [x] = x"
| "str_join sep (x # y # ys) = x @ sep @ str_join sep (y # ys)"

fun expandtabs_from :: "nat \<Rightarrow> nat \<Rightarrow> string \<Rightarrow> string" where
  \<comment> \<open>the loop of \<^verbatim>\<open>str.expandtabs\<close>, with the column reached so far\<close>
  "expandtabs_from tabsize col [] = []"
| "expandtabs_from tabsize col (c # s) =
     (if c = tab then
        (if tabsize > 0
         then replicate (tabsize - col mod tabsize) CHR '' ''
              @ expandtabs_from tabsize (col + (tabsize - col mod tabsize)) s
         else expandtabs_from tabsize col s)
      else if c = newline \<or> c = carriage_return then c # expandtabs_from tabsize 0 s
      else c # expandtabs_from tabsize (col + 1) s)"

definition expandtabs :: "nat \<Rightarrow> string \<Rightarrow> string" where
  "expandtabs tabsize s = expandtabs_from tabsize 0 s"

subsection \<open>\<^verbatim>\<open>os.path.join\<close> (POSIX)\<close>

definition join_step :: "string \<Rightarrow> string \<Rightarrow> string" where
  "join_step path b =
     (if starts_with ''/'' b then b
      else if path = [] \<or> ends_with ''/'' path then path @ b
      else path @ ''/'' @ b)"

definition path_join :: "string \<Rightarrow> string list \<Rightarrow> string" where
  "path_join a ps = foldl join_step a ps"

subsection \<open>Regular expressions: the fragment the script uses\<close>

text \<open>
  Both patterns of the script are sequences of literal characters, the dot and one lazy
  \<^verbatim>\<open>.*?\<close>, compiled with \<^verbatim>\<open>re.DOTALL\<close> (the dot matches every character) or, for the escaped
  literal, with no dot at all. \<open>rmatch p s\<close> is the backtracking matcher anchored at the
  start of \<open>s\<close>: it returns the text left after the match it prefers, the lazy star trying
  the shortest repetition first.
\<close>

datatype rx = Lit char | AnyChar | LazyAny

fun rmatch :: "rx list \<Rightarrow> string \<Rightarrow> string option" where
  "rmatch [] s = Some s"
| "rmatch (Lit c # p) s =
     (case s of [] \<Rightarrow> None | x # xs \<Rightarrow> if x = c then rmatch p xs else None)"
| "rmatch (AnyChar # p) s =
     (case s of [] \<Rightarrow> None | x # xs \<Rightarrow> rmatch p xs)"
| "rmatch (LazyAny # p) s =
     (case rmatch p s of
        Some r \<Rightarrow> Some r
      | None \<Rightarrow> (case s of [] \<Rightarrow> None | x # xs \<Rightarrow> rmatch (LazyAny # p) xs))"

text \<open>
  \<^verbatim>\<open>re.search\<close>: the leftmost position where the pattern matches. The result is the text
  before the match, the match (\<^verbatim>\<open>group(0)\<close>) and the text after it.
\<close>

fun re_search :: "rx list \<Rightarrow> string \<Rightarrow> (string \<times> string \<times> string) option" where
  "re_search p s =
     (case rmatch p s of
        Some r \<Rightarrow> Some ([], take (length s - length r) s, r)
      | None \<Rightarrow>
          (case s of
             [] \<Rightarrow> None
           | x # xs \<Rightarrow> map_option (\<lambda>(a, m, b). (x # a, m, b)) (re_search p xs)))"

declare re_search.simps [simp del]

datatype error =
    FileNotFoundError string  \<comment> \<open>raised by the script, with its message\<close>
  | OpenFailed string         \<comment> \<open>\<^verbatim>\<open>FileNotFoundError\<close> raised by \<^verbatim>\<open>open\<close> for this path\<close>
  | AttributeError            \<comment> \<open>\<^verbatim>\<open>.group\<close> on the \<^verbatim>\<open>None\<close> of a failed search\<close>
  | TypeError                 \<comment> \<open>\<^verbatim>\<open>os.path.join(None, ...)\<close>\<close>
  | TemplateError             \<comment> \<open>\<^verbatim>\<open>re.error\<close> or \<^verbatim>\<open>IndexError\<close> from the replacement template\<close>

text \<open>
  The replacement argument of \<^verbatim>\<open>re.sub\<close> is a template: unless it is free of backslashes it
  is parsed before any search is made. The tokenizer reads a backslash together with the
  character after it; the patterns here have no groups, so only group 0 can be referred to.
  Every failure of the parser is one error value. A group named in angle brackets is read
  as CPython 3.12 reads it: the name must be decimal digits, and only zero is a group that
  exists (earlier versions also took a zero written with a sign, white space or
  underscores).
\<close>

datatype token = Ch char | Esc char

fun tokenize :: "string \<Rightarrow> token list option" where
  "tokenize [] = Some []"
| "tokenize (c # r) =
     (if c = backslash then
        (case r of
           [] \<Rightarrow> None
         | d # r' \<Rightarrow> map_option (Cons (Esc d)) (tokenize r'))
      else map_option (Cons (Ch c)) (tokenize r))"

fun token_text :: "token \<Rightarrow> string" where
  "token_text (Ch c) = [c]"
| "token_text (Esc c) = [backslash, c]"

fun tok_digit :: "token \<Rightarrow> bool" where
  "tok_digit (Ch c) = is_digit c"
| "tok_digit (Esc c) = False"

fun tok_octdigit :: "token \<Rightarrow> bool" where
  "tok_octdigit (Ch c) = is_octdigit c"
| "tok_octdigit (Esc c) = False"

fun tok_val :: "token \<Rightarrow> nat" where
  "tok_val (Ch c) = digit_val c"
| "tok_val (Esc c) = 0"

datatype titem = TLit char | TGroup0

definition escape_char :: "char \<Rightarrow> char option" where
  \<comment> \<open>the table \<^verbatim>\<open>ESCAPES\<close> of the template parser\<close>
  "escape_char c =
     (if c = CHR ''a'' then Some (CHR 0x07)
      else if c = CHR ''b'' then Some (CHR 0x08)
      else if c = CHR ''f'' then Some (CHR 0x0C)
      else if c = CHR ''n'' then Some (CHR 0x0A)
      else if c = CHR ''r'' then Some (CHR 0x0D)
      else if c = CHR ''t'' then Some (CHR 0x09)
      else if c = CHR ''v'' then Some (CHR 0x0B)
      else if c = backslash then Some backslash
      else None)"

definition lits :: "string \<Rightarrow> titem list" where
  "lits s = map TLit s"

function parse_tokens :: "token list \<Rightarrow> titem list option" where
  "parse_tokens [] = Some []"
| "parse_tokens (Ch c # ts) = map_option (Cons (TLit c)) (parse_tokens ts)"
| "parse_tokens (Esc c # ts) =
     (if c = CHR ''g'' then
        \<comment> \<open>a named reference: only an all-digit name of value 0 names a group that exists\<close>
        (case ts of
           [] \<Rightarrow> None
         | t # ts' \<Rightarrow>
             if t \<noteq> Ch CHR ''<'' then None
             else
               (let name = concat (map token_text (takeWhile (\<lambda>t. t \<noteq> Ch CHR ''>'') ts'));
                    rest = dropWhile (\<lambda>t. t \<noteq> Ch CHR ''>'') ts'
                in if rest = [] \<or> name = [] then None
                   else if \<forall>d \<in> set name. d = CHR ''0''
                   then map_option (Cons TGroup0) (parse_tokens (tl rest))
                   else None))
      else if c = CHR ''0'' then
        \<comment> \<open>octal escape of up to three digits\<close>
        (case ts of
           t1 # t2 # ts' \<Rightarrow>
             if tok_octdigit t1 \<and> tok_octdigit t2
             then map_option (Cons (TLit (char_of ((8 * tok_val t1 + tok_val t2) mod 256))))
                    (parse_tokens ts')
             else if tok_octdigit t1
             then map_option (Cons (TLit (char_of (tok_val t1)))) (parse_tokens (t2 # ts'))
             else map_option (Cons (TLit (char_of (0::nat)))) (parse_tokens (t1 # t2 # ts'))
         | [t1] \<Rightarrow>
             if tok_octdigit t1 then Some [TLit (char_of (tok_val t1))]
             else map_option (Cons (TLit (char_of (0::nat)))) (parse_tokens [t1])
         | [] \<Rightarrow> Some [TLit (char_of (0::nat))])
      else if is_digit c then
        \<comment> \<open>three octal digits are a character; anything else refers to a group above 0\<close>
        (case ts of
           t1 # t2 # ts' \<Rightarrow>
             if is_octdigit c \<and> tok_octdigit t1 \<and> tok_octdigit t2
             then (let v = 64 * digit_val c + 8 * tok_val t1 + tok_val t2
                   in if v > 255 then None
                      else map_option (Cons (TLit (char_of v))) (parse_tokens ts'))
             else None
         | _ \<Rightarrow> None)
      else
        (case escape_char c of
           Some e \<Rightarrow> map_option (Cons (TLit e)) (parse_tokens ts)
         | None \<Rightarrow>
             if is_ascii_letter c then None
             else map_option (\<lambda>r. TLit backslash # TLit c # r) (parse_tokens ts)))"
  by pat_completeness auto
termination
proof (relation "measure length", goal_cases)
  case 1
  show ?case by simp
next
  case (2 c ts)
  show ?case by simp
next
  case (3 c ts t ts' name rest)
  have "length (dropWhile (\<lambda>t. t \<noteq> Ch CHR ''>'') ts') \<le> length ts'"
    by (rule length_dropWhile_le)
  with 3 show ?case by (cases rest) auto
qed auto

definition parse_template :: "string \<Rightarrow> error + titem list" where
  "parse_template repl =
     (case tokenize repl of
        None \<Rightarrow> Inl TemplateError
      | Some ts \<Rightarrow>
          (case parse_tokens ts of
             None \<Rightarrow> Inl TemplateError
           | Some t \<Rightarrow> Inr t))"

fun expand_item :: "string \<Rightarrow> titem \<Rightarrow> string" where
  "expand_item m (TLit c) = [c]"
| "expand_item m TGroup0 = m"

definition expand_template :: "titem list \<Rightarrow> string \<Rightarrow> string" where
  "expand_template t m = concat (map (expand_item m) t)"

text \<open>
  The scan of \<^verbatim>\<open>re.sub\<close> with no \<^verbatim>\<open>count\<close>: every match is replaced, and the search
  resumes where the match ended. A match of a pattern that starts with a literal is never
  empty; for an empty match Python inserts the replacement and moves one character on.
\<close>

function sub_scan :: "rx list \<Rightarrow> titem list \<Rightarrow> string \<Rightarrow> string" where
  "sub_scan p t s =
     (case rmatch p s of
        Some r \<Rightarrow>
          if length r < length s
          then expand_template t (take (length s - length r) s) @ sub_scan p t r
          else expand_template t []
               @ (case s of [] \<Rightarrow> [] | x # xs \<Rightarrow> x # sub_scan p t xs)
      | None \<Rightarrow> (case s of [] \<Rightarrow> [] | x # xs \<Rightarrow> x # sub_scan p t xs))"
  by pat_completeness auto
termination
  by (relation "measure (\<lambda>(p, t, s). length s)") auto

declare sub_scan.simps [simp del]

definition re_sub :: "rx list \<Rightarrow> string \<Rightarrow> string \<Rightarrow> error + string" where
  "re_sub p repl s =
     (if backslash \<notin> set repl then Inr (sub_scan p (lits repl) s)
      else (case parse_template repl of
              Inl e \<Rightarrow> Inl e
            | Inr t \<Rightarrow> Inr (sub_scan p t s)))"

definition re_escape :: "string \<Rightarrow> rx list" where
  \<comment> \<open>the compiled \<^verbatim>\<open>re.escape(s)\<close>: every character of \<open>s\<close> matches itself\<close>
  "re_escape s = map Lit s"

subsection \<open>\<^verbatim>\<open>overwrite_python_default_interpreter_path\<close>\<close>

text \<open>
  \<^verbatim>\<open>
  default_python_interpreter_key = '"python.defaultInterpreterPath": '
  default_python_interpreter_value = '"${env:ORBIT_PATH}/_isaac_sim/python.sh"'
  new_interpreter_path = f'{default_python_interpreter_key}"{os.path.join(isaac_sim_dir, "python.sh")}"'
  pattern = re.escape(default_python_interpreter_key + default_python_interpreter_value)
  settings = re.sub(pattern, new_interpreter_path, ws_settings)
  return settings
  \<close>
\<close>

definition default_python_interpreter_key :: string where
  \<open>default_python_interpreter_key = ''"python.defaultInterpreterPath": ''\<close>

definition default_python_interpreter_value :: string where
  \<open>default_python_interpreter_value = ''"${env:ORBIT_PATH}/_isaac_sim/python.sh"''\<close>

definition new_interpreter_path :: "string \<Rightarrow> string" where
  "new_interpreter_path isaac_sim_dir =
     default_python_interpreter_key @ [dquote]
       @ path_join isaac_sim_dir [''python.sh''] @ [dquote]"

definition overwrite_python_default_interpreter_path :: "string \<Rightarrow> string \<Rightarrow> error + string" where
  "overwrite_python_default_interpreter_path ws_settings isaac_sim_dir =
     (let pattern = re_escape (default_python_interpreter_key @ default_python_interpreter_value)
      in re_sub pattern (new_interpreter_path isaac_sim_dir) ws_settings)"

subsection \<open>\<^verbatim>\<open>header_msg\<close>\<close>

text \<open>
  Four lines, the last of which names the source:
  \<^verbatim>\<open>f"// Generated from: {src}\n"\<close>.
\<close>

definition header_msg :: "string \<Rightarrow> string" where
  "header_msg src =
     ''// This file is a template and is automatically generated by the setup_vscode.py script.\<newline>''
     @ ''// Do not edit this file directly.\<newline>''
     @ ''// \<newline>''
     @ ''// Generated from: '' @ src @ ''\<newline>''"

subsection \<open>Files\<close>

text \<open>
  The world the script runs in: the files, and the sequence of file operations made so
  far (\<^verbatim>\<open>os.path.exists\<close>, \<^verbatim>\<open>open(p).read()\<close>, \<^verbatim>\<open>open(p, "w").write(t)\<close>).
\<close>

datatype event = Exists string | Read string | Write string

record world =
  files :: "string \<rightharpoonup> string"
  log :: "event list"

definition path_exists :: "string \<Rightarrow> world \<Rightarrow> bool \<times> world" where
  "path_exists p w = (files w p \<noteq> None, w\<lparr>log := log w @ [Exists p]\<rparr>)"

definition read_file :: "string \<Rightarrow> world \<Rightarrow> (error + string) \<times> world" where
  "read_file p w =
     ((case files w p of None \<Rightarrow> Inl (OpenFailed p) | Some t \<Rightarrow> Inr t),
      w\<lparr>log := log w @ [Read p]\<rparr>)"

definition write_file :: "string \<Rightarrow> string \<Rightarrow> world \<Rightarrow> world" where
  "write_file p t w = w\<lparr>files := (files w)(p \<mapsto> t), log := log w @ [Write p]\<rparr>"

subsection \<open>\<^verbatim>\<open>overwrite_python_analysis_extra_paths\<close>\<close>

text \<open>
  \<^verbatim>\<open>
  isaacsim_vscode_filename = os.path.join(isaac_sim_dir, ".vscode", "settings.json")
  if not os.path.exists(isaacsim_vscode_filename):
      raise FileNotFoundError(f"Could not find the isaac-sim settings file: {isaacsim_vscode_filename}")
  with open(isaacsim_vscode_filename) as f:
      vscode_settings = f.read()
  settings = re.search(r"\"python.analysis.extraPaths\": \[.*?\]", vscode_settings,
                       flags=re.MULTILINE | re.DOTALL)
  settings = settings.group(0)
  settings = settings.split('"python.analysis.extraPaths": [')[-1]
  settings = settings.split("]")[0]
  path_names = settings.split(",")
  path_names = [path_name.strip().strip('"') for path_name in path_names]
  path_names = ['"' + isaac_sim_dir + "/" + path_name + '"'
                for path_name in path_names if len(path_name) > 0]
  path_names = ",\n\t\t".expandtabs(4).join(path_names)
  ws_settings = re.sub(
      r"\"python.analysis.extraPaths\": \[.*?\]",
      '"python.analysis.extraPaths": [\n\t\t'.expandtabs(4) + path_names + "\n\t]".expandtabs(4),
      ws_settings, flags=re.DOTALL)
  return ws_settings
  \<close>
  The function reads a file, so the model takes the world and returns it with the
  operations logged. A split never returns an empty list, so the \<open>last\<close> and the \<open>hd\<close> below
  are the elements Python takes with \<^verbatim>\<open>[-1]\<close> and \<^verbatim>\<open>[0]\<close>.
\<close>

definition extra_paths_key :: string where
  \<comment> \<open>the literal the matched text is split on\<close>
  \<open>extra_paths_key = ''"python.analysis.extraPaths": [''\<close>

definition extra_paths_rx :: "rx list" where
  \<comment> \<open>the pattern of the search and of the substitution: its two dots are not escaped\<close>
  \<open>extra_paths_rx =
     map Lit ''"python'' @ [AnyChar] @ map Lit ''analysis'' @ [AnyChar]
       @ map Lit ''extraPaths": ['' @ [LazyAny, Lit CHR '']'']\<close>

definition extract_settings :: "string \<Rightarrow> error + string" where
  \<comment> \<open>search, \<^verbatim>\<open>group(0)\<close>, \<^verbatim>\<open>split(key)[-1]\<close>, \<^verbatim>\<open>split("]")[0]\<close>\<close>
  "extract_settings vscode_settings =
     (case re_search extra_paths_rx vscode_settings of
        None \<Rightarrow> Inl AttributeError
      | Some (before, m, after) \<Rightarrow>
          Inr (hd (str_split '']'' (last (str_split extra_paths_key m)))))"

definition path_names_of :: "string \<Rightarrow> string \<Rightarrow> string" where
  \<comment> \<open>split on commas, strip, drop the empty names, prefix the directory, join\<close>
  "path_names_of isaac_sim_dir settings =
     (let path_names = str_split '','' settings;
          path_names = map (\<lambda>path_name. str_strip_chars [dquote] (str_strip path_name)) path_names;
          path_names = map (\<lambda>path_name. [dquote] @ isaac_sim_dir @ ''/'' @ path_name @ [dquote])
                         (filter (\<lambda>path_name. length path_name > 0) path_names)
      in str_join (expandtabs 4 ('','' @ [newline, tab, tab])) path_names)"

definition extra_paths_literal :: "string \<Rightarrow> string" where
  \<comment> \<open>the replacement text built around the joined names\<close>
  "extra_paths_literal path_names =
     expandtabs 4 (extra_paths_key @ [newline, tab, tab]) @ path_names
       @ expandtabs 4 ([newline, tab] @ '']'')"

definition replace_extra_paths :: "string \<Rightarrow> string \<Rightarrow> string \<Rightarrow> error + string" where
  \<comment> \<open>the function's body after the secondary file has been read\<close>
  "replace_extra_paths ws_settings isaac_sim_dir vscode_settings =
     (case extract_settings vscode_settings of
        Inl e \<Rightarrow> Inl e
      | Inr settings \<Rightarrow>
          re_sub extra_paths_rx (extra_paths_literal (path_names_of isaac_sim_dir settings))
            ws_settings)"

definition isaacsim_vscode_filename :: "string \<Rightarrow> string" where
  "isaacsim_vscode_filename isaac_sim_dir =
     path_join isaac_sim_dir [''.vscode'', ''settings.json'']"

definition overwrite_python_analysis_extra_paths ::
  "string \<Rightarrow> string \<Rightarrow> world \<Rightarrow> (error + string) \<times> world" where
  "overwrite_python_analysis_extra_paths ws_settings isaac_sim_dir w =
     (case path_exists (isaacsim_vscode_filename isaac_sim_dir) w of
        (ex, w1) \<Rightarrow>
          if \<not> ex then
            (Inl (FileNotFoundError
                   (''Could not find the isaac-sim settings file: ''
                      @ isaacsim_vscode_filename isaac_sim_dir)), w1)
          else
            (case read_file (isaacsim_vscode_filename isaac_sim_dir) w1 of
               (Inl e, w2) \<Rightarrow> (Inl e, w2)
             | (Inr vscode_settings, w2) \<Rightarrow>
                 (replace_extra_paths ws_settings isaac_sim_dir vscode_settings, w2)))"

subsection \<open>\<^verbatim>\<open>main\<close>\<close>

text \<open>
  \<^verbatim>\<open>
  settings_template_path = os.path.join(WS_DIR, ".vscode", "tools", "settings.template.json")
  if not os.path.exists(settings_template_path):
      raise FileNotFoundError(f"Could not find the orbit template settings file: {settings_template_path}")
  with open(settings_template_path) as f:
      settings_template = f.read()
  isaacsim_path = os.path.join(args.orbit_path, "_isaac_sim")
  settings = overwrite_python_analysis_extra_paths(settings_template, isaacsim_path)
  settings = overwrite_python_default_interpreter_path(settings, isaacsim_path)
  settings = header_msg(settings_template_path) + settings
  settings_path = os.path.join(WS_DIR, ".vscode", "settings.json")
  with open(settings_path, "w") as f:
      f.write(settings)
  launch_path = os.path.join(WS_DIR, ".vscode", "launch.json")
  launch_template_path = os.path.join(WS_DIR, ".vscode", "tools", "launch.template.json")
  if not os.path.exists(launch_path):
      with open(launch_template_path) as f:
          launch_template = f.read()
      launch = header_msg(launch_template_path) + launch_template
      with open(launch_path, "w") as f:
          f.write(launch)
  \<close>
  \<open>ws_dir\<close> is the module constant \<^verbatim>\<open>WS_DIR\<close> (the directory two levels above the script),
  \<open>orbit_path\<close> the value of the optional command-line argument \<^verbatim>\<open>--orbit_path\<close>, which is
  \<^verbatim>\<open>None\<close> when the argument is not given. The result is the exception that ended the run,
  if any, and the world the run leaves behind.
\<close>

definition settings_template_path :: "string \<Rightarrow> string" where
  "settings_template_path ws_dir =
     path_join ws_dir [''.vscode'', ''tools'', ''settings.template.json'']"

definition settings_path :: "string \<Rightarrow> string" where
  "settings_path ws_dir = path_join ws_dir [''.vscode'', ''settings.json'']"

definition launch_path :: "string \<Rightarrow> string" where
  "launch_path ws_dir = path_join ws_dir [''.vscode'', ''launch.json'']"

definition launch_template_path :: "string \<Rightarrow> string" where
  "launch_template_path ws_dir =
     path_join ws_dir [''.vscode'', ''tools'', ''launch.template.json'']"

definition copy_launch :: "string \<Rightarrow> world \<Rightarrow> error option \<times> world" where
  \<comment> \<open>the second half of \<^verbatim>\<open>main\<close>\<close>
  "copy_launch ws_dir w =
     (case path_exists (launch_path ws_dir) w of
        (ex, w1) \<Rightarrow>
          if \<not> ex then
            (case read_file (launch_template_path ws_dir) w1 of
               (Inl e, w2) \<Rightarrow> (Some e, w2)
             | (Inr launch_template, w2) \<Rightarrow>
                 (None,
                  write_file (launch_path ws_dir)
                    (header_msg (launch_template_path ws_dir) @ launch_template) w2))
          else (None, w1))"

definition main :: "string \<Rightarrow> string option \<Rightarrow> world \<Rightarrow> error option \<times> world" where
  "main ws_dir orbit_path w =
     (case path_exists (settings_template_path ws_dir) w of
        (ex, w1) \<Rightarrow>
          if \<not> ex then
            (Some (FileNotFoundError
                     (''Could not find the orbit template settings file: ''
                        @ settings_template_path ws_dir)), w1)
          else
            (case read_file (settings_template_path ws_dir) w1 of
               (Inl e, w2) \<Rightarrow> (Some e, w2)
             | (Inr settings_template, w2) \<Rightarrow>
                 (case orbit_path of
                    None \<Rightarrow> (Some TypeError, w2)
                  | Some orbit \<Rightarrow>
                      (let isaacsim_path = path_join orbit [''_isaac_sim'']
                       in case overwrite_python_analysis_extra_paths
                                 settings_template isaacsim_path w2 of
                            (Inl e, w3) \<Rightarrow> (Some e, w3)
                          | (Inr settings, w3) \<Rightarrow>
                              (case overwrite_python_default_interpreter_path
                                      settings isaacsim_path of
                                 Inl e \<Rightarrow> (Some e, w3)
                               | Inr settings' \<Rightarrow>
                                   copy_launch ws_dir
                                     (write_file (settings_path ws_dir)
                                        (header_msg (settings_template_path ws_dir) @ settings')
                                        w3))))))"

subsection \<open>Notions used to state the properties\<close>

text \<open>
  \<open>no_earlier P pre rest\<close>: in the text \<open>pre @ rest\<close>, the property \<open>P\<close> holds for no suffix
  that starts inside \<open>pre\<close>. With \<open>P\<close> "an occurrence starts here", it says that the first
  occurrence is not before the end of \<open>pre\<close>.
\<close>

fun no_earlier :: "(string \<Rightarrow> bool) \<Rightarrow> string \<Rightarrow> string \<Rightarrow> bool" where
  "no_earlier P [] rest = True"
| "no_earlier P (x # pre) rest = (\<not> P (x # pre @ rest) \<and> no_earlier P pre rest)"

definition is_marker :: "string \<Rightarrow> bool" where
  \<comment> \<open>a text the pattern matches up to its opening bracket: the key, any character for a dot\<close>
  \<open>is_marker m =
     (\<exists>c1 c2. m = ''"python'' @ [c1] @ ''analysis'' @ [c2] @ ''extraPaths": ['')\<close>

definition marker_here :: "string \<Rightarrow> bool" where
  "marker_here s = is_marker (take (length extra_paths_key) s)"

definition interpreter_literal :: string where
  \<comment> \<open>the text the escaped pattern matches\<close>
  "interpreter_literal = default_python_interpreter_key @ default_python_interpreter_value"

definition quoted :: "string \<Rightarrow> string" where
  "quoted s = [dquote] @ s @ [dquote]"

definition example_world :: "(string \<times> string) list \<Rightarrow> world" where
  \<comment> \<open>a world with the listed files and an empty log\<close>
  "example_world fs = \<lparr>files = map_of fs, log = []\<rparr>"

definition two_entries :: "string \<Rightarrow> string \<Rightarrow> string \<Rightarrow> string \<Rightarrow> string" where
  \<comment> \<open>the text of a list with the entries \<^verbatim>\<open>"a"\<close> and \<^verbatim>\<open>"b"\<close>, laid out with any white space\<close>
  "two_entries ws0 ws1 ws2 ws3 = ws0 @ quoted ''a'' @ ws1 @ CHR '','' # ws2 @ quoted ''b'' @ ws3"

definition toolkit_list :: string where
  \<comment> \<open>the list literal expected for the entries \<^verbatim>\<open>a\<close> and \<^verbatim>\<open>b\<close> under \<^verbatim>\<open>/opt/toolkit\<close>\<close>
  "toolkit_list = extra_paths_key @ ''\<newline>        '' @ quoted ''/opt/toolkit/a''
     @ '',\<newline>        '' @ quoted ''/opt/toolkit/b'' @ ''\<newline>    ]''"

section \<open>Facts about the model\<close>

subsection \<open>Matching, searching and substituting\<close>

declare rmatch.simps(4) [simp del]

lemma rmatch_lits:
  "rmatch (map Lit l @ p) s = (if starts_with l s then rmatch p (drop (length l) s) else None)"
  by (induction l arbitrary: s) (auto simp: starts_with_def split: list.splits)

lemma rmatch_suffix: "rmatch p s = Some r \<Longrightarrow> \<exists>m. s = m @ r"
proof (induction p s rule: rmatch.induct)
  case (1 s)
  then show ?case by simp
next
  case (2 c p s)
  then show ?case by (cases s) (auto split: if_splits intro: Cons_eq_appendI)
next
  case (3 p s)
  then show ?case by (cases s) (auto intro: Cons_eq_appendI)
next
  case (4 p s)
  show ?case
  proof (cases "rmatch p s")
    case (Some r')
    with 4 show ?thesis by (simp add: rmatch.simps(4))
  next
    case None
    show ?thesis
    proof (cases s)
      case Nil
      with None "4.prems" show ?thesis by (simp add: rmatch.simps(4))
    next
      case (Cons x xs)
      with None "4.prems" have "rmatch (LazyAny # p) xs = Some r"
        by (simp add: rmatch.simps(4))
      with "4.IH"(2) [OF None Cons] obtain m where "xs = m @ r" by blast
      with Cons show ?thesis by (auto intro: Cons_eq_appendI)
    qed
  qed
qed

lemma rmatch_length: "rmatch p s = Some r \<Longrightarrow> length r \<le> length s"
  using rmatch_suffix by fastforce

lemma rmatch_take: "rmatch p s = Some r \<Longrightarrow> take (length s - length r) s @ r = s"
  using rmatch_suffix by fastforce

lemma all_le_Suc_drop:
  "(\<forall>i \<le> Suc n. P (drop i (x # xs))) \<longleftrightarrow> P (x # xs) \<and> (\<forall>i \<le> n. P (drop i xs))"
proof
  assume a: "\<forall>i \<le> Suc n. P (drop i (x # xs))"
  have "P (x # xs)" using a [rule_format, of 0] by simp
  moreover have "\<forall>i \<le> n. P (drop i xs)"
  proof (intro allI impI)
    fix i assume "i \<le> n"
    then show "P (drop i xs)" using a [rule_format, of "Suc i"] by simp
  qed
  ultimately show "P (x # xs) \<and> (\<forall>i \<le> n. P (drop i xs))" ..
next
  assume a: "P (x # xs) \<and> (\<forall>i \<le> n. P (drop i xs))"
  show "\<forall>i \<le> Suc n. P (drop i (x # xs))"
  proof (intro allI impI)
    fix i assume "i \<le> Suc n"
    then show "P (drop i (x # xs))" using a by (cases i) auto
  qed
qed

lemma re_search_None_iff:
  "re_search p s = None \<longleftrightarrow> (\<forall>i \<le> length s. rmatch p (drop i s) = None)"
proof (induction s)
  case Nil
  show ?case by (simp add: re_search.simps split: option.splits)
next
  case (Cons x xs)
  show ?case
    using Cons all_le_Suc_drop [of "length xs" "\<lambda>t. rmatch p t = None" x xs]
    by (simp add: re_search.simps [of p "x # xs"] split: option.splits)
qed

lemma re_search_Some:
  assumes "re_search p s = Some (a, m, b)"
  shows "s = a @ m @ b \<and> rmatch p (m @ b) = Some b \<and> (\<forall>i < length a. rmatch p (drop i s) = None)"
  using assms
proof (induction s arbitrary: a)
  case Nil
  then have r: "rmatch p [] = Some b" and "a = []" and "m = []"
    by (auto simp: re_search.simps [of p "[]"] split: option.splits)
  moreover from r have "b = []" by (auto dest: rmatch_length)
  ultimately show ?case by simp
next
  case (Cons x xs)
  show ?case
  proof (cases "rmatch p (x # xs)")
    case (Some r)
    then have "re_search p (x # xs) = Some ([], take (length (x # xs) - length r) (x # xs), r)"
      by (simp add: re_search.simps [of p "x # xs"])
    with Cons.prems have eq: "a = []" "m = take (length (x # xs) - length r) (x # xs)" "b = r"
      by (metis option.inject prod.inject)+
    have xs_eq: "x # xs = m @ b"
      by (metis eq(2) eq(3) rmatch_take [OF Some])
    have "rmatch p (m @ b) = Some b"
      by (metis Some xs_eq eq(3))
    moreover have "x # xs = a @ m @ b"
      by (metis xs_eq eq(1) append_Nil)
    moreover have "\<forall>i < length a. rmatch p (drop i (x # xs)) = None"
      by (simp add: eq(1))
    ultimately show ?thesis by blast
  next
    case None
    with Cons.prems obtain a' where a': "re_search p xs = Some (a', m, b)" "a = x # a'"
      by (auto simp: re_search.simps [of p "x # xs"])
    note ih0 = Cons.IH [OF a'(1)]
    have ih: "xs = a' @ m @ b" "rmatch p (m @ b) = Some b"
      "\<forall>i < length a'. rmatch p (drop i xs) = None"
      using ih0 by (rule conjunct1, rule conjunct1 [OF conjunct2], rule conjunct2 [OF conjunct2])
    have "\<forall>i < length a. rmatch p (drop i (x # xs)) = None"
    proof (intro allI impI)
      fix i assume "i < length a"
      then show "rmatch p (drop i (x # xs)) = None"
        using None ih(3) a'(2) by (cases i) auto
    qed
    moreover have "x # xs = a @ m @ b"
      by (metis ih(1) a'(2) append_Cons)
    ultimately show ?thesis using ih(2) by blast
  qed
qed

lemma re_search_first:
  assumes "rmatch p (m @ b) = Some b"
    and "\<forall>i < length a. rmatch p (drop i (a @ m @ b)) = None"
  shows "re_search p (a @ m @ b) = Some (a, m, b)"
  using assms(2)
proof (induction a)
  case Nil
  from assms(1) show ?case by (simp add: re_search.simps [of p "m @ b"])
next
  case (Cons x a)
  from Cons.prems have none: "rmatch p (x # a @ m @ b) = None"
    by (auto dest: spec [of _ 0])
  have "\<forall>i < length a. rmatch p (drop i (a @ m @ b)) = None"
  proof (intro allI impI)
    fix i assume "i < length a"
    then show "rmatch p (drop i (a @ m @ b)) = None"
      using Cons.prems [rule_format, of "Suc i"] by simp
  qed
  from Cons.IH [OF this] none show ?case
    by (simp add: re_search.simps [of p "x # a @ m @ b"])
qed

lemma sub_scan_no_match: "re_search p s = None \<Longrightarrow> sub_scan p t s = s"
proof (induction s)
  case Nil
  then show ?case
    by (simp add: sub_scan.simps [of p t "[]"] re_search.simps [of p "[]"] split: option.splits)
next
  case (Cons x xs)
  then show ?case
    by (simp add: sub_scan.simps [of p t "x # xs"] re_search.simps [of p "x # xs"] split: option.splits)
qed

lemma sub_scan_match:
  assumes "re_search p s = Some (a, m, b)" and "m \<noteq> []"
  shows "sub_scan p t s = a @ expand_template t m @ sub_scan p t b"
  using assms(1)
proof (induction s arbitrary: a)
  case Nil
  with assms(2) show ?case
    by (auto simp: re_search.simps [of p "[]"] split: option.splits)
next
  case (Cons x xs)
  show ?case
  proof (cases "rmatch p (x # xs)")
    case (Some r)
    then have "re_search p (x # xs) = Some ([], take (length (x # xs) - length r) (x # xs), r)"
      by (simp add: re_search.simps [of p "x # xs"])
    with Cons.prems have eq: "a = []" "m = take (length (x # xs) - length r) (x # xs)" "b = r"
      by (metis option.inject prod.inject)+
    have "x # xs = m @ b"
      by (metis eq(2) eq(3) rmatch_take [OF Some])
    then have "length (x # xs) = length m + length b" by (metis length_append)
    with assms(2) eq(3) have "length r < length (x # xs)" by simp
    with Some have "sub_scan p t (x # xs)
        = expand_template t (take (length (x # xs) - length r) (x # xs)) @ sub_scan p t r"
      by (simp add: sub_scan.simps [of p t "x # xs"])
    then show ?thesis
      by (metis eq append_Nil)
  next
    case None
    with Cons.prems obtain a' where a': "re_search p xs = Some (a', m, b)" "a = x # a'"
      by (auto simp: re_search.simps [of p "x # xs"])
    from Cons.IH [OF a'(1)] None a'(2) show ?thesis
      by (simp add: sub_scan.simps [of p t "x # xs"])
  qed
qed


subsection \<open>Escaped literals\<close>

lemma rmatch_literal:
  "rmatch (map Lit l) s = (if starts_with l s then Some (drop (length l) s) else None)"
  using rmatch_lits [of l "[]" s] by simp

lemma starts_with_append [simp]: "starts_with l (l @ r)"
  by (simp add: starts_with_def)

lemma starts_with_iff: "starts_with l s \<longleftrightarrow> (\<exists>r. s = l @ r)"
proof
  assume "starts_with l s"
  then have "s = l @ drop (length l) s"
    by (metis append_take_drop_id starts_with_def)
  then show "\<exists>r. s = l @ r" ..
next
  assume "\<exists>r. s = l @ r"
  then show "starts_with l s" by auto
qed

lemma no_earlier_iff:
  "no_earlier P pre rest \<longleftrightarrow> (\<forall>i < length pre. \<not> P (drop i (pre @ rest)))"
proof (induction pre)
  case Nil
  show ?case by simp
next
  case (Cons x pre)
  have "(\<forall>i < length (x # pre). \<not> P (drop i ((x # pre) @ rest)))
      \<longleftrightarrow> \<not> P (x # pre @ rest) \<and> (\<forall>i < length pre. \<not> P (drop i (pre @ rest)))"
    (is "?L \<longleftrightarrow> ?R")
  proof
    assume l: ?L
    have "\<not> P (x # pre @ rest)" using l [rule_format, of 0] by simp
    moreover have "\<forall>i < length pre. \<not> P (drop i (pre @ rest))"
    proof (intro allI impI)
      fix i assume "i < length pre"
      then show "\<not> P (drop i (pre @ rest))" using l [rule_format, of "Suc i"] by simp
    qed
    ultimately show ?R ..
  next
    assume r: ?R
    show ?L
    proof (intro allI impI)
      fix i assume "i < length (x # pre)"
      then show "\<not> P (drop i ((x # pre) @ rest))" using r by (cases i) auto
    qed
  qed
  with Cons show ?case by simp
qed

lemma no_earlier_mono:
  "no_earlier P pre rest \<Longrightarrow> (\<And>s. Q s \<Longrightarrow> P s) \<Longrightarrow> no_earlier Q pre rest"
  by (induction pre) auto

lemma re_search_at:
  assumes "rmatch p (m @ b) = Some b"
    and "no_earlier (\<lambda>s. rmatch p s \<noteq> None) a (m @ b)"
  shows "re_search p (a @ m @ b) = Some (a, m, b)"
proof (rule re_search_first [OF assms(1)])
  show "\<forall>i < length a. rmatch p (drop i (a @ m @ b)) = None"
    using assms(2) by (simp add: no_earlier_iff)
qed


lemma literal_match_iff:
  "rmatch (re_escape L) s = Some r \<longleftrightarrow> s = L @ r"
  by (auto simp: re_escape_def rmatch_literal starts_with_iff)

lemma literal_search_first:
  assumes "no_earlier (starts_with L) a (L @ b)"
  shows "re_search (re_escape L) (a @ L @ b) = Some (a, L, b)"
proof (rule re_search_at)
  show "rmatch (re_escape L) (L @ b) = Some b"
    by (simp add: literal_match_iff)
  show "no_earlier (\<lambda>s. rmatch (re_escape L) s \<noteq> None) a (L @ b)"
    by (rule no_earlier_mono [OF assms]) (auto simp: literal_match_iff)
qed

lemma literal_search_none:
  assumes "\<not> (\<exists>a b. s = a @ L @ b)"
  shows "re_search (re_escape L) s = None"
proof -
  have "rmatch (re_escape L) (drop i s) = None" for i
  proof (cases "rmatch (re_escape L) (drop i s)")
    case None
    then show ?thesis .
  next
    case (Some r)
    then have "drop i s = L @ r" by (simp add: literal_match_iff)
    then have "s = take i s @ L @ r" by (metis append_take_drop_id)
    with assms show ?thesis by blast
  qed
  then show ?thesis by (simp add: re_search_None_iff)
qed

lemma literal_search_some:
  assumes "s = a @ L @ b"
  shows "\<exists>a' b'. re_search (re_escape L) s = Some (a', L, b') \<and> s = a' @ L @ b'"
proof (cases "re_search (re_escape L) s")
  case None
  then have "\<forall>i \<le> length s. rmatch (re_escape L) (drop i s) = None"
    by (simp only: re_search_None_iff)
  moreover have "length a \<le> length s" and "drop (length a) s = L @ b"
    using assms by simp_all
  ultimately have "rmatch (re_escape L) (L @ b) = None" by metis
  then show ?thesis by (simp add: literal_match_iff [of L "L @ b" b, simplified])
next
  case (Some t)
  obtain a' m b' where t: "t = (a', m, b')" by (cases t)
  from re_search_Some [OF Some [unfolded t]]
  have s: "s = a' @ m @ b'" and r: "rmatch (re_escape L) (m @ b') = Some b'" by blast+
  from r have "m @ b' = L @ b'" by (simp add: literal_match_iff)
  then have "m = L" by simp
  with Some t s show ?thesis by simp
qed

lemma expand_lits [simp]: "expand_template (lits r) m = r"
  by (induction r) (simp_all add: expand_template_def lits_def)

lemma re_sub_plain:
  "backslash \<notin> set repl \<Longrightarrow> re_sub p repl s = Inr (sub_scan p (lits repl) s)"
  by (simp add: re_sub_def)

subsection \<open>The text that replaces the interpreter path\<close>

lemma path_join_single: "path_join d [b] = join_step d b"
  by (simp add: path_join_def)

lemma backslash_new_interpreter_path:
  "backslash \<notin> set d \<Longrightarrow> backslash \<notin> set (new_interpreter_path d)"
  by (simp add: new_interpreter_path_def default_python_interpreter_key_def path_join_single
      join_step_def backslash_def dquote_def)

lemma new_interpreter_path_toolkit:
  "new_interpreter_path ''/opt/toolkit''
     = default_python_interpreter_key @ quoted ''/opt/toolkit/python.sh''"
  by (simp add: new_interpreter_path_def quoted_def path_join_single join_step_def
      starts_with_def ends_with_def)

lemma interpreter_literal_nonempty: "interpreter_literal \<noteq> []"
  by (simp add: interpreter_literal_def default_python_interpreter_key_def)


lemma interpreter_sub_plain:
  assumes "backslash \<notin> set d"
  shows "overwrite_python_default_interpreter_path ws d
     = Inr (sub_scan (re_escape interpreter_literal) (lits (new_interpreter_path d)) ws)"
  using backslash_new_interpreter_path [OF assms]
  by (simp add: overwrite_python_default_interpreter_path_def re_sub_plain interpreter_literal_def)

lemma interpreter_sub_toolkit:
  "overwrite_python_default_interpreter_path ws ''/opt/toolkit''
     = Inr (sub_scan (re_escape interpreter_literal) (lits (new_interpreter_path ''/opt/toolkit'')) ws)"
  by (rule interpreter_sub_plain) (simp add: backslash_def)

subsection \<open>The marker pattern\<close>

lemma rmatch_lazy_hit:
  "c \<notin> set body \<Longrightarrow> rmatch [LazyAny, Lit c] (body @ c # r) = Some r"
  by (induction body) (auto simp: rmatch.simps(4))

lemma rmatch_lits_Some:
  "rmatch (map Lit l @ p) s = Some r \<longleftrightarrow> (\<exists>t. s = l @ t \<and> rmatch p t = Some r)"
  by (auto simp: rmatch_lits starts_with_iff)

lemma rmatch_shape:
  assumes "rmatch (map Lit A @ AnyChar # map Lit B @ AnyChar # map Lit C @ q) s = Some r"
  shows "\<exists>c1 c2 t. s = A @ [c1] @ B @ [c2] @ C @ t \<and> rmatch q t = Some r"
proof -
  from assms obtain t1 where 1: "s = A @ t1"
    and "rmatch (AnyChar # map Lit B @ AnyChar # map Lit C @ q) t1 = Some r"
    by (auto simp: rmatch_lits_Some)
  then obtain c1 t2 where 2: "t1 = c1 # t2"
    and "rmatch (map Lit B @ AnyChar # map Lit C @ q) t2 = Some r"
    by (cases t1) auto
  then obtain t3 where 3: "t2 = B @ t3" and "rmatch (AnyChar # map Lit C @ q) t3 = Some r"
    by (auto simp: rmatch_lits_Some)
  then obtain c2 t4 where 4: "t3 = c2 # t4" and "rmatch (map Lit C @ q) t4 = Some r"
    by (cases t3) auto
  then obtain t5 where 5: "t4 = C @ t5" and 6: "rmatch q t5 = Some r"
    by (auto simp: rmatch_lits_Some)
  from 1 2 3 4 5 have "s = A @ [c1] @ B @ [c2] @ C @ t5" by simp
  with 6 show ?thesis by blast
qed

lemma rmatch_marker_here:
  assumes "rmatch extra_paths_rx s = Some r"
  shows "marker_here s"
proof -
  have rx: \<open>extra_paths_rx = map Lit ''"python'' @ AnyChar # map Lit ''analysis''
      @ AnyChar # map Lit ''extraPaths": ['' @ [LazyAny, Lit CHR '']'']\<close>
    by (simp add: extra_paths_rx_def)
  from rmatch_shape [OF assms [unfolded rx]]
  obtain c1 c2 t where \<open>s = ''"python'' @ [c1] @ ''analysis'' @ [c2] @ ''extraPaths": ['' @ t\<close>
    by blast
  then show ?thesis
    by (auto simp: marker_here_def is_marker_def extra_paths_key_def)
qed

lemma rmatch_marker_hit:
  assumes "is_marker m" and "CHR '']'' \<notin> set body"
  shows "rmatch extra_paths_rx (m @ body @ CHR '']'' # r) = Some r"
proof -
  from assms(1) obtain c1 c2
    where m: \<open>m = ''"python'' @ [c1] @ ''analysis'' @ [c2] @ ''extraPaths": [''\<close>
    by (auto simp: is_marker_def)
  have "rmatch extra_paths_rx (m @ body @ CHR '']'' # r)
      = rmatch [LazyAny, Lit CHR '']''] (body @ CHR '']'' # r)"
    by (simp add: m extra_paths_rx_def)
  with assms(2) show ?thesis by (simp add: rmatch_lazy_hit)
qed

lemma is_marker_key: "is_marker extra_paths_key"
  by (simp add: is_marker_def extra_paths_key_def)

lemma marker_search_first:
  assumes "is_marker m" and "CHR '']'' \<notin> set body"
    and "no_earlier marker_here pre (m @ body @ CHR '']'' # post)"
  shows "re_search extra_paths_rx (pre @ m @ body @ CHR '']'' # post)
      = Some (pre, m @ body @ '']'', post)"
proof -
  have "rmatch extra_paths_rx ((m @ body @ '']'') @ post) = Some post"
    using rmatch_marker_hit [OF assms(1,2)] by simp
  moreover have "no_earlier (\<lambda>s. rmatch extra_paths_rx s \<noteq> None) pre ((m @ body @ '']'') @ post)"
    using no_earlier_mono [OF assms(3), of "\<lambda>s. rmatch extra_paths_rx s \<noteq> None"]
    by (auto dest: rmatch_marker_here)
  ultimately have "re_search extra_paths_rx (pre @ (m @ body @ '']'') @ post)
      = Some (pre, m @ body @ '']'', post)"
    by (rule re_search_at)
  then show ?thesis by simp
qed


subsection \<open>Splitting\<close>

lemma starts_with_Nil [simp]: "starts_with sep [] \<longleftrightarrow> sep = []"
  by (auto simp: starts_with_def)

lemma split_from_hit:
  "sep \<noteq> [] \<Longrightarrow> starts_with sep s
    \<Longrightarrow> split_from sep cur s = cur # split_from sep [] (drop (length sep) s)"
  by (subst split_from.simps) simp

lemma split_from_Nil: "split_from sep cur [] = [cur]"
  by (subst split_from.simps) auto

lemma split_from_miss:
  "\<not> starts_with sep (c # cs) \<Longrightarrow> split_from sep cur (c # cs) = split_from sep (cur @ [c]) cs"
  by (subst split_from.simps) simp

lemma split_from_empty_sep:
  "split_from [] cur (c # cs) = split_from [] (cur @ [c]) cs"
  by (subst split_from.simps) simp

lemma split_from_acc:
  "split_from sep cur s = (cur @ hd (split_from sep [] s)) # tl (split_from sep [] s)"
proof (induction s arbitrary: cur rule: length_induct)
  case (1 s)
  show ?case
  proof (cases "sep \<noteq> [] \<and> starts_with sep s")
    case True
    then show ?thesis
      by (simp add: split_from_hit [of sep s cur] split_from_hit [of sep s "[]"])
  next
    case False
    show ?thesis
    proof (cases s)
      case Nil
      then show ?thesis by (simp add: split_from_Nil)
    next
      case (Cons c cs)
      let ?X = "split_from sep [] cs"
      have "length cs < length s" using Cons by simp
      then have ih: "split_from sep acc cs = (acc @ hd ?X) # tl ?X" for acc
        using 1 [rule_format, of cs acc] by blast
      have step: "split_from sep acc (c # cs) = split_from sep (acc @ [c]) cs" for acc
      proof (cases "sep = []")
        case True
        then show ?thesis by (simp add: split_from_empty_sep)
      next
        case False
        with \<open>\<not> (sep \<noteq> [] \<and> starts_with sep s)\<close> Cons
        have "\<not> starts_with sep (c # cs)" by simp
        then show ?thesis by (rule split_from_miss)
      qed
      show ?thesis
        by (simp add: Cons step [of cur] step [of "[]"] ih [of "cur @ [c]"] ih [of "[c]"])
    qed
  qed
qed

lemma str_split_Nil: "str_split sep [] = [[]]"
  by (simp add: str_split_def split_from_Nil)

lemma str_split_hit: "sep \<noteq> [] \<Longrightarrow> str_split sep (sep @ s) = [] # str_split sep s"
  by (simp add: str_split_def split_from_hit)

lemma str_split_miss:
  assumes "\<not> starts_with sep (c # cs)"
  shows "str_split sep (c # cs) = (c # hd (str_split sep cs)) # tl (str_split sep cs)"
  by (simp add: str_split_def split_from_miss [OF assms] split_from_acc [of sep "[c]" cs])

lemma starts_with_set: "starts_with sep s \<Longrightarrow> set sep \<subseteq> set s"
  by (auto simp: starts_with_iff)

lemma str_split_absent_char:
  assumes "x \<in> set sep"
  shows "x \<notin> set s \<Longrightarrow> str_split sep s = [s]"
proof (induction s)
  case Nil
  show ?case by (rule str_split_Nil)
next
  case (Cons c cs)
  have "\<not> starts_with sep (c # cs)"
    using assms Cons.prems starts_with_set [of sep "c # cs"] by blast
  from str_split_miss [OF this] Cons show ?case by simp
qed

lemma str_split_char:
  "c \<notin> set a \<Longrightarrow> str_split [c] (a @ c # b) = a # str_split [c] b"
proof (induction a)
  case Nil
  show ?case using str_split_hit [of "[c]" b] by simp
next
  case (Cons x a)
  then have "\<not> starts_with [c] (x # a @ c # b)" by (auto simp: starts_with_def)
  from str_split_miss [OF this] Cons show ?case by simp
qed

lemma extract_settings_key:
  assumes "CHR '']'' \<notin> set body" and "CHR ''['' \<notin> set body"
    and "no_earlier marker_here pre (extra_paths_key @ body @ CHR '']'' # post)"
  shows "extract_settings (pre @ extra_paths_key @ body @ CHR '']'' # post) = Inr body"
proof -
  have key: "extra_paths_key \<noteq> []" and bracket: "CHR ''['' \<in> set extra_paths_key"
    by (simp_all add: extra_paths_key_def)
  have "CHR ''['' \<notin> set (body @ '']'')" using assms(2) by simp
  from str_split_absent_char [OF bracket this]
  have "str_split extra_paths_key (extra_paths_key @ body @ '']'') = [[], body @ '']'']"
    by (simp add: str_split_hit [OF key])
  moreover have "str_split '']'' (body @ '']'') = [body, []]"
    using str_split_char [OF assms(1), of "[]"] by (simp add: str_split_Nil)
  ultimately show ?thesis
    by (simp add: extract_settings_def marker_search_first [OF is_marker_key assms(1,3)])
qed

lemma not_marker_here_example:
  "no_earlier marker_here ''{ '' (extra_paths_key @ t)"
  by (simp add: marker_here_def is_marker_def extra_paths_key_def)

subsection \<open>Stripping, joining and the list literal\<close>

lemma dropWhile_all: "list_all P l \<Longrightarrow> dropWhile P (l @ r) = dropWhile P r"
  by (induction l) simp_all

lemma dropWhile_stop: "core \<noteq> [] \<Longrightarrow> \<not> P (hd core) \<Longrightarrow> dropWhile P (core @ r) = core @ r"
  by (cases core) simp_all

lemma strip_with_core:
  assumes "list_all P l" and "list_all P r" and "core \<noteq> []"
    and "\<not> P (hd core)" and "\<not> P (last core)"
  shows "strip_with P (l @ core @ r) = core"
proof -
  have "dropWhile P (rev (l @ core @ r)) = dropWhile P (rev core @ rev l)"
    using assms(2) by (simp add: dropWhile_all list_all_iff)
  also have "\<dots> = rev core @ rev l"
    using assms(3,5) by (intro dropWhile_stop) (simp_all add: hd_rev)
  finally have "strip_with P (l @ core @ r) = dropWhile P (l @ core)"
    by (simp add: strip_with_def)
  also have "\<dots> = dropWhile P (core @ [])"
    using assms(1) by (simp add: dropWhile_all)
  also have "\<dots> = core"
    using dropWhile_stop [of core P "[]"] assms(3,4) by simp
  finally show ?thesis .
qed

lemma is_space_simps [simp]:
  "\<not> is_space dquote" "\<not> is_space CHR '',''" "is_space CHR '' ''" "is_space newline"
  by (simp_all add: is_space_def dquote_def newline_def)

lemma str_strip_quoted:
  "list_all is_space l \<Longrightarrow> list_all is_space r \<Longrightarrow> str_strip (l @ quoted a @ r) = quoted a"
  unfolding str_strip_def
  by (rule strip_with_core) (simp_all add: quoted_def)

lemma strip_quotes:
  assumes "a \<noteq> []" and "hd a \<noteq> dquote" and "last a \<noteq> dquote"
  shows "str_strip_chars [dquote] (quoted a) = a"
  using strip_with_core [of "\<lambda>c. c \<in> set [dquote]" "[dquote]" "[dquote]" a] assms
  by (simp add: str_strip_chars_def quoted_def)

lemma spaces_no_comma: "list_all is_space l \<Longrightarrow> CHR '','' \<notin> set l"
  by (auto simp: list_all_iff)

lemma expandtabs_separator:
  "expandtabs 4 [CHR '','', newline, tab, tab] = '',\<newline>        ''"
  by code_simp

lemma expandtabs_closing:
  "expandtabs 4 [newline, tab, CHR '']''] = ''\<newline>    ]''"
  by code_simp

lemma expandtabs_opening:
  "expandtabs 4 (extra_paths_key @ [newline, tab, tab]) = extra_paths_key @ ''\<newline>        ''"
  by code_simp

lemma extra_paths_literal_eq:
  "extra_paths_literal names = extra_paths_key @ ''\<newline>        '' @ names @ ''\<newline>    ]''"
  by (simp add: extra_paths_literal_def expandtabs_opening expandtabs_closing)

lemma path_names_of_two:
  assumes "list_all is_space ws0" "list_all is_space ws1"
    and "list_all is_space ws2" "list_all is_space ws3"
    and "a \<noteq> []" "hd a \<noteq> dquote" "last a \<noteq> dquote" "CHR '','' \<notin> set a"
    and "b \<noteq> []" "hd b \<noteq> dquote" "last b \<noteq> dquote" "CHR '','' \<notin> set b"
  shows "path_names_of d (ws0 @ quoted a @ ws1 @ CHR '','' # ws2 @ quoted b @ ws3)
     = quoted (d @ ''/'' @ a) @ '',\<newline>        '' @ quoted (d @ ''/'' @ b)"
proof -
  let ?e1 = "ws0 @ quoted a @ ws1" and ?e2 = "ws2 @ quoted b @ ws3"
  have c1: "CHR '','' \<notin> set ?e1"
    using assms(1,2,8) by (simp add: spaces_no_comma quoted_def dquote_def)
  have c2: "CHR '','' \<notin> set ?e2"
    using assms(3,4,12) by (simp add: spaces_no_comma quoted_def dquote_def)
  have "str_split '','' (?e1 @ CHR '','' # ?e2) = ?e1 # str_split '','' ?e2"
    by (rule str_split_char [OF c1])
  also have "str_split '','' ?e2 = [?e2]"
    by (rule str_split_absent_char [OF _ c2]) simp
  finally have split: "str_split '','' (ws0 @ quoted a @ ws1 @ CHR '','' # ws2 @ quoted b @ ws3)
      = [?e1, ?e2]" by simp
  have "str_strip_chars [dquote] (str_strip ?e1) = a"
    using assms(1,2,5,6,7) by (simp add: str_strip_quoted strip_quotes)
  moreover have "str_strip_chars [dquote] (str_strip ?e2) = b"
    using assms(3,4,9,10,11) by (simp add: str_strip_quoted strip_quotes)
  ultimately have "path_names_of d (ws0 @ quoted a @ ws1 @ CHR '','' # ws2 @ quoted b @ ws3)
      = str_join '',\<newline>        ''
          (map (\<lambda>path_name. [dquote] @ d @ ''/'' @ path_name @ [dquote]) [a, b])"
    using assms(5,9)
    by (simp add: path_names_of_def split expandtabs_separator Let_def)
  then show ?thesis by (simp add: quoted_def)
qed


lemma spaces_no_brackets:
  "list_all is_space l \<Longrightarrow> CHR '']'' \<notin> set l \<and> CHR ''['' \<notin> set l"
  by (auto simp: list_all_iff is_space_def)

lemma overwrite_reads_secondary:
  assumes "files w (isaacsim_vscode_filename d) = Some sec"
  shows "overwrite_python_analysis_extra_paths ws d w
     = (replace_extra_paths ws d sec,
        w\<lparr>log := log w @ [Exists (isaacsim_vscode_filename d), Read (isaacsim_vscode_filename d)]\<rparr>)"
  using assms
  by (simp add: overwrite_python_analysis_extra_paths_def path_exists_def read_file_def)

lemma isaacsim_vscode_filename_toolkit:
  "isaacsim_vscode_filename ''/opt/toolkit'' = ''/opt/toolkit/.vscode/settings.json''"
  by code_simp

lemma replace_extra_paths_two:
  assumes "list_all is_space ws0" "list_all is_space ws1"
    and "list_all is_space ws2" "list_all is_space ws3"
    and "no_earlier marker_here spre
           (extra_paths_key @ two_entries ws0 ws1 ws2 ws3 @ CHR '']'' # spost)"
  shows "replace_extra_paths ws ''/opt/toolkit''
           (spre @ extra_paths_key @ two_entries ws0 ws1 ws2 ws3 @ CHR '']'' # spost)
     = Inr (sub_scan extra_paths_rx (lits toolkit_list) ws)"
proof -
  let ?body = "two_entries ws0 ws1 ws2 ws3"
  have "CHR '']'' \<notin> set ?body" and "CHR ''['' \<notin> set ?body"
    using assms(1-4) by (simp_all add: two_entries_def spaces_no_brackets quoted_def dquote_def)
  then have ex: "extract_settings (spre @ extra_paths_key @ ?body @ CHR '']'' # spost) = Inr ?body"
    using assms(5) by (rule extract_settings_key)
  have names: "path_names_of ''/opt/toolkit'' ?body
      = quoted ''/opt/toolkit/a'' @ '',\<newline>        '' @ quoted ''/opt/toolkit/b''"
    unfolding two_entries_def
    using path_names_of_two [OF assms(1-4), of "''a''" "''b''" "''/opt/toolkit''"]
    by (simp add: dquote_def)
  have lit: "extra_paths_literal (path_names_of ''/opt/toolkit'' ?body) = toolkit_list"
    by (simp add: names extra_paths_literal_eq toolkit_list_def)
  have "backslash \<notin> set toolkit_list"
    by (simp add: toolkit_list_def extra_paths_key_def quoted_def dquote_def backslash_def)
  then show ?thesis
    by (simp add: replace_extra_paths_def ex lit re_sub_plain)
qed

lemma is_marker_nonempty: "is_marker m \<Longrightarrow> m @ t \<noteq> []"
  by (auto simp: is_marker_def)

lemma sub_scan_marker_first:
  assumes "is_marker m" and "CHR '']'' \<notin> set body"
    and "no_earlier marker_here pre (m @ body @ CHR '']'' # post)"
  shows "sub_scan extra_paths_rx (lits new) (pre @ m @ body @ CHR '']'' # post)
     = pre @ new @ sub_scan extra_paths_rx (lits new) post"
  using sub_scan_match [OF marker_search_first [OF assms] is_marker_nonempty [OF assms(1)],
      of "lits new"]
  by simp

lemma str_split_nonempty: "str_split sep s \<noteq> []"
  unfolding str_split_def by (subst split_from_acc) simp

lemma str_split_comma_count:
  "length (str_split '','' s) = Suc (count_list s CHR '','')"
proof (induction s)
  case Nil
  show ?case by (simp add: str_split_Nil)
next
  case (Cons c cs)
  show ?case
  proof (cases "c = CHR '',''")
    case True
    then show ?thesis
      using str_split_hit [of "'',''" cs] Cons by simp
  next
    case False
    then have "\<not> starts_with '','' (c # cs)" by (simp add: starts_with_def)
    from str_split_miss [OF this] False Cons str_split_nonempty [of "'',''" cs]
    show ?thesis by simp
  qed
qed

lemma re_sub_no_match:
  assumes "re_search p ws = None" and "re_sub p repl ws = Inr out"
  shows "out = ws"
  using assms
  by (auto simp: re_sub_def sub_scan_no_match split: if_splits sum.splits)

subsection \<open>Paths and the course of a run\<close>

text \<open>
  The four paths under the workspace and the path of the secondary settings file end in
  different file names, so they are different paths. A run of \<open>main\<close> either ends in an
  exception before anything is written, or writes the settings file and goes on to the
  launch file; up to there it has only tested and read the settings template and the
  secondary settings file.
\<close>

lemma join_step_suffix:
  "\<not> starts_with ''/'' b \<Longrightarrow> \<exists>p. join_step a b = p @ b"
  by (auto simp: join_step_def)

lemma launch_path_suffix: "\<exists>p. launch_path ws_dir = p @ ''launch.json''"
  unfolding launch_path_def path_join_def
  using join_step_suffix [of "''launch.json''" "join_step ws_dir ''.vscode''"]
  by (simp add: starts_with_def)

lemma settings_path_suffix: "\<exists>p. settings_path ws_dir = p @ ''settings.json''"
  unfolding settings_path_def path_join_def
  using join_step_suffix [of "''settings.json''" "join_step ws_dir ''.vscode''"]
  by (simp add: starts_with_def)

lemma settings_template_path_suffix:
  "\<exists>p. settings_template_path ws_dir = p @ ''settings.template.json''"
  unfolding settings_template_path_def path_join_def
  using join_step_suffix [of "''settings.template.json''"
      "join_step (join_step ws_dir ''.vscode'') ''tools''"]
  by (simp add: starts_with_def)

lemma launch_template_path_suffix:
  "\<exists>p. launch_template_path ws_dir = p @ ''launch.template.json''"
  unfolding launch_template_path_def path_join_def
  using join_step_suffix [of "''launch.template.json''"
      "join_step (join_step ws_dir ''.vscode'') ''tools''"]
  by (simp add: starts_with_def)

lemma isaacsim_vscode_filename_suffix:
  "\<exists>p. isaacsim_vscode_filename d = p @ ''settings.json''"
  unfolding isaacsim_vscode_filename_def path_join_def
  using join_step_suffix [of "''settings.json''" "join_step d ''.vscode''"]
  by (simp add: starts_with_def)

lemma same_length_suffix:
  "p @ a = q @ b \<Longrightarrow> length a = length b \<Longrightarrow> a = b"
  by simp

lemma launch_not_settings: "launch_path ws_dir \<noteq> settings_path ws_dir"
proof
  assume eq: "launch_path ws_dir = settings_path ws_dir"
  obtain p where p: "launch_path ws_dir = p @ ''launch.json''"
    using launch_path_suffix by blast
  obtain q where q: "settings_path ws_dir = q @ ''settings.json''"
    using settings_path_suffix by blast
  from eq p q have "(p @ ''la'') @ ''unch.json'' = (q @ ''sett'') @ ''ings.json''" by simp
  then have "''unch.json'' = ''ings.json''" by (metis append_eq_append_conv length_Cons)
  then show False by simp
qed


lemma launch_not_settings_template: "launch_path ws_dir \<noteq> settings_template_path ws_dir"
proof
  assume eq: "launch_path ws_dir = settings_template_path ws_dir"
  obtain p where p: "launch_path ws_dir = p @ ''launch.json''"
    using launch_path_suffix by blast
  obtain q where q: "settings_template_path ws_dir = q @ ''settings.template.json''"
    using settings_template_path_suffix by blast
  from eq p q have "(p @ ''la'') @ ''unch.json'' = (q @ ''settings.temp'') @ ''late.json''"
    by simp
  then have "''unch.json'' = ''late.json''" by (rule same_length_suffix) simp
  then show False by simp
qed

lemma launch_not_secondary: "launch_path ws_dir \<noteq> isaacsim_vscode_filename d"
proof
  assume eq: "launch_path ws_dir = isaacsim_vscode_filename d"
  obtain p where p: "launch_path ws_dir = p @ ''launch.json''"
    using launch_path_suffix by blast
  obtain q where q: "isaacsim_vscode_filename d = q @ ''settings.json''"
    using isaacsim_vscode_filename_suffix by blast
  from eq p q have "(p @ ''la'') @ ''unch.json'' = (q @ ''sett'') @ ''ings.json''" by simp
  then have "''unch.json'' = ''ings.json''" by (rule same_length_suffix) simp
  then show False by simp
qed

lemma copy_launch_existing:
  assumes "files w (launch_path ws_dir) = Some content"
  shows "copy_launch ws_dir w = (None, w\<lparr>log := log w @ [Exists (launch_path ws_dir)]\<rparr>)"
  using assms by (simp add: copy_launch_def path_exists_def)

lemma overwrite_extra_paths_world:
  "\<exists>evs. snd (overwrite_python_analysis_extra_paths ws d w) = w\<lparr>log := log w @ evs\<rparr>
     \<and> set evs \<subseteq> {Exists (isaacsim_vscode_filename d), Read (isaacsim_vscode_filename d)}"
  by (auto simp: overwrite_python_analysis_extra_paths_def path_exists_def read_file_def
      split: option.splits sum.splits)


lemma overwrite_missing_secondary:
  assumes "files w (isaacsim_vscode_filename d) = None"
  shows "overwrite_python_analysis_extra_paths ws d w
     = (Inl (FileNotFoundError
              (''Could not find the isaac-sim settings file: '' @ isaacsim_vscode_filename d)),
        w\<lparr>log := log w @ [Exists (isaacsim_vscode_filename d)]\<rparr>)"
  using assms by (simp add: overwrite_python_analysis_extra_paths_def path_exists_def)

lemma main_missing_secondary:
  assumes "files w (isaacsim_vscode_filename (path_join orbit [''_isaac_sim''])) = None"
  shows "\<exists>e evs. main ws_dir (Some orbit) w = (Some e, w\<lparr>log := log w @ evs\<rparr>)
           \<and> (\<forall>p. Write p \<notin> set evs)"
proof (cases "files w (settings_template_path ws_dir)")
  case None
  then have "main ws_dir (Some orbit) w
      = (Some (FileNotFoundError (''Could not find the orbit template settings file: ''
                 @ settings_template_path ws_dir)),
         w\<lparr>log := log w @ [Exists (settings_template_path ws_dir)]\<rparr>)"
    by (simp add: main_def path_exists_def)
  moreover have "\<forall>p. Write p \<notin> set [Exists (settings_template_path ws_dir)]" by simp
  ultimately show ?thesis by blast
next
  case (Some tmpl)
  let ?d = "path_join orbit [''_isaac_sim'']"
  let ?w2 = "w\<lparr>log := log w @ [Exists (settings_template_path ws_dir),
                                Read (settings_template_path ws_dir)]\<rparr>"
  have "files ?w2 (isaacsim_vscode_filename ?d) = None" using assms by simp
  from overwrite_missing_secondary [OF this, of tmpl] Some
  have "main ws_dir (Some orbit) w
      = (Some (FileNotFoundError
                (''Could not find the isaac-sim settings file: '' @ isaacsim_vscode_filename ?d)),
         w\<lparr>log := log w @ [Exists (settings_template_path ws_dir),
                             Read (settings_template_path ws_dir),
                             Exists (isaacsim_vscode_filename ?d)]\<rparr>)"
    by (simp add: main_def path_exists_def read_file_def Let_def)
  moreover have "\<forall>p. Write p \<notin> set [Exists (settings_template_path ws_dir),
      Read (settings_template_path ws_dir), Exists (isaacsim_vscode_filename ?d)]" by simp
  ultimately show ?thesis by blast
qed

lemma isaacsim_vscode_filename_eq:
  "isaacsim_vscode_filename d
     = (if d = [] \<or> ends_with ''/'' d then d else d @ ''/'') @ ''.vscode/settings.json''"
  by (simp add: isaacsim_vscode_filename_def path_join_def join_step_def starts_with_def
      ends_with_def)


lemma main_shape:
  "\<exists>evs. (\<forall>ev \<in> set evs. \<exists>p. (ev = Exists p \<or> ev = Read p)
              \<and> (p = settings_template_path ws_dir
                   \<or> (\<exists>orbit. orbit_path = Some orbit
                        \<and> p = isaacsim_vscode_filename (path_join orbit [''_isaac_sim'']))))
     \<and> ((\<exists>e. main ws_dir orbit_path w = (Some e, w\<lparr>log := log w @ evs\<rparr>))
        \<or> (\<exists>body. main ws_dir orbit_path w
               = copy_launch ws_dir
                   (write_file (settings_path ws_dir)
                      (header_msg (settings_template_path ws_dir) @ body)
                      (w\<lparr>log := log w @ evs\<rparr>))))"
  (is "\<exists>evs. ?ok evs \<and> ?res evs")
proof (cases "files w (settings_template_path ws_dir)")
  case None
  then have "?res [Exists (settings_template_path ws_dir)]"
    by (simp add: main_def path_exists_def)
  moreover have "?ok [Exists (settings_template_path ws_dir)]" by simp
  ultimately show ?thesis by blast
next
  case (Some tmpl)
  let ?evs1 = "[Exists (settings_template_path ws_dir), Read (settings_template_path ws_dir)]"
  let ?w2 = "w\<lparr>log := log w @ ?evs1\<rparr>"
  show ?thesis
  proof (cases orbit_path)
    case None
    with Some have "?res ?evs1"
      by (simp add: main_def path_exists_def read_file_def)
    moreover have "?ok ?evs1" by simp
    ultimately show ?thesis by blast
  next
    case orbit: (Some orbit)
    let ?d = "path_join orbit [''_isaac_sim'']"
    obtain evs2 where w3: "snd (overwrite_python_analysis_extra_paths tmpl ?d ?w2)
        = ?w2\<lparr>log := log ?w2 @ evs2\<rparr>"
      and evs2: "set evs2 \<subseteq> {Exists (isaacsim_vscode_filename ?d), Read (isaacsim_vscode_filename ?d)}"
      using overwrite_extra_paths_world [of tmpl ?d ?w2] by blast
    obtain res where run: "overwrite_python_analysis_extra_paths tmpl ?d ?w2
        = (res, w\<lparr>log := log w @ ?evs1 @ evs2\<rparr>)"
      using w3 by (cases "overwrite_python_analysis_extra_paths tmpl ?d ?w2") simp
    have ok: "?ok (?evs1 @ evs2)"
      using evs2 orbit by auto
    have "?res (?evs1 @ evs2)"
    proof (cases res)
      case (Inl e)
      with Some orbit run show ?thesis
        by (simp add: main_def path_exists_def read_file_def Let_def)
    next
      case (Inr settings)
      show ?thesis
      proof (cases "overwrite_python_default_interpreter_path settings ?d")
        case (Inl e)
        with Some orbit run Inr show ?thesis
          by (simp add: main_def path_exists_def read_file_def Let_def)
      next
        case inner: (Inr settings')
        with Some orbit run Inr have "main ws_dir orbit_path w
            = copy_launch ws_dir
                (write_file (settings_path ws_dir)
                   (header_msg (settings_template_path ws_dir) @ settings')
                   (w\<lparr>log := log w @ ?evs1 @ evs2\<rparr>))"
          by (simp add: main_def path_exists_def read_file_def Let_def)
        then show ?thesis by blast
      qed
    qed
    with ok show ?thesis by blast
  qed
qed

lemma main_launch_untouched:
  assumes "files w (launch_path ws_dir) = Some content"
  shows "files (snd (main ws_dir orbit_path w)) (launch_path ws_dir) = Some content
     \<and> (\<exists>evs. log (snd (main ws_dir orbit_path w)) = log w @ evs
           \<and> Read (launch_path ws_dir) \<notin> set evs \<and> Write (launch_path ws_dir) \<notin> set evs)"
proof -
  let ?lp = "launch_path ws_dir"
  obtain evs where ok: "\<forall>ev \<in> set evs. \<exists>p. (ev = Exists p \<or> ev = Read p)
              \<and> (p = settings_template_path ws_dir
                   \<or> (\<exists>orbit. orbit_path = Some orbit
                        \<and> p = isaacsim_vscode_filename (path_join orbit [''_isaac_sim''])))"
    and res: "(\<exists>e. main ws_dir orbit_path w = (Some e, w\<lparr>log := log w @ evs\<rparr>))
        \<or> (\<exists>c. main ws_dir orbit_path w
               = copy_launch ws_dir
                   (write_file (settings_path ws_dir) c (w\<lparr>log := log w @ evs\<rparr>)))"
    using main_shape [of ws_dir orbit_path w] by blast
  have noread: "Read ?lp \<notin> set evs"
    using ok launch_not_settings_template [of ws_dir] launch_not_secondary [of ws_dir] by fastforce
  have nowrite: "Write ?lp \<notin> set evs"
    using ok by fastforce
  from res show ?thesis
  proof
    assume "\<exists>e. main ws_dir orbit_path w = (Some e, w\<lparr>log := log w @ evs\<rparr>)"
    then show ?thesis using assms noread nowrite by auto
  next
    assume "\<exists>c. main ws_dir orbit_path w
               = copy_launch ws_dir
                   (write_file (settings_path ws_dir) c (w\<lparr>log := log w @ evs\<rparr>))"
    then obtain c where m: "main ws_dir orbit_path w
               = copy_launch ws_dir
                   (write_file (settings_path ws_dir) c (w\<lparr>log := log w @ evs\<rparr>))" by blast
    let ?w' = "write_file (settings_path ws_dir) c (w\<lparr>log := log w @ evs\<rparr>)"
    have kept: "files ?w' ?lp = Some content"
      using assms launch_not_settings [of ws_dir] by (simp add: write_file_def)
    have "main ws_dir orbit_path w = (None, ?w'\<lparr>log := log ?w' @ [Exists ?lp]\<rparr>)"
      using m copy_launch_existing [OF kept] by simp
    then have files: "files (snd (main ws_dir orbit_path w)) ?lp = Some content"
      and log: "log (snd (main ws_dir orbit_path w))
          = log w @ (evs @ [Write (settings_path ws_dir), Exists ?lp])"
      using kept by (simp_all add: write_file_def)
    have "Read ?lp \<notin> set (evs @ [Write (settings_path ws_dir), Exists ?lp])"
      using noread by simp
    moreover have "Write ?lp \<notin> set (evs @ [Write (settings_path ws_dir), Exists ?lp])"
      using nowrite launch_not_settings [of ws_dir] by simp
    ultimately show ?thesis using files log by blast
  qed
qed

subsection \<open>Texts without a backslash\<close>

lemma str_split_pieces:
  assumes "sep \<noteq> []"
  shows "piece \<in> set (str_split sep s) \<Longrightarrow> set piece \<subseteq> set s"
proof (induction s arbitrary: piece rule: length_induct)
  case (1 s)
  have ih: "set y \<subseteq> set t" if "length t < length s" and "y \<in> set (str_split sep t)" for t y
    using "1.IH" [rule_format, of t y] that by blast
  show ?case
  proof (cases "starts_with sep s")
    case True
    then obtain s' where s: "s = sep @ s'" by (auto simp: starts_with_iff)
    with assms have shorter: "length s' < length s" by simp
    from "1.prems" s assms have "piece = [] \<or> piece \<in> set (str_split sep s')"
      by (simp add: str_split_hit)
    then show ?thesis
    proof
      assume "piece = []"
      then show ?thesis by simp
    next
      assume "piece \<in> set (str_split sep s')"
      from ih [OF shorter this] have "set piece \<subseteq> set s'" .
      also have "set s' \<subseteq> set s" using s by simp
      finally show ?thesis .
    qed
  next
    case False
    show ?thesis
    proof (cases s)
      case Nil
      with "1.prems" show ?thesis by (simp add: str_split_Nil)
    next
      case (Cons c cs)
      let ?X = "str_split sep cs"
      have X: "?X \<noteq> []" by (rule str_split_nonempty)
      then have hdX: "hd ?X \<in> set ?X" by simp
      have tlX: "set (tl ?X) \<subseteq> set ?X" using X by (cases ?X) auto
      have shorter: "length cs < length s" using Cons by simp
      from False Cons have "str_split sep s = (c # hd ?X) # tl ?X"
        by (simp add: str_split_miss)
      with "1.prems" have "piece = c # hd ?X \<or> piece \<in> set (tl ?X)" by simp
      then show ?thesis
      proof
        assume p: "piece = c # hd ?X"
        from ih [OF shorter hdX] have "set (hd ?X) \<subseteq> set cs" .
        with p Cons show ?thesis by auto
      next
        assume "piece \<in> set (tl ?X)"
        with tlX have "piece \<in> set ?X" by blast
        from ih [OF shorter this] have "set piece \<subseteq> set cs" .
        with Cons show ?thesis by auto
      qed
    qed
  qed
qed

lemma set_strip_with: "set (strip_with P s) \<subseteq> set s"
proof
  fix c assume "c \<in> set (strip_with P s)"
  then have "c \<in> set (rev (dropWhile P (rev s)))"
    unfolding strip_with_def by (rule set_dropWhileD)
  then have "c \<in> set (dropWhile P (rev s))" by simp
  then have "c \<in> set (rev s)" by (rule set_dropWhileD)
  then show "c \<in> set s" by simp
qed

lemma set_str_join: "set (str_join sep xs) \<subseteq> set sep \<union> (\<Union>x \<in> set xs. set x)"
  by (induction sep xs rule: str_join.induct) auto

lemma extract_settings_subset:
  assumes "extract_settings sec = Inr t"
  shows "set t \<subseteq> set sec"
proof -
  from assms obtain a m b where found: "re_search extra_paths_rx sec = Some (a, m, b)"
    and t: "t = hd (str_split '']'' (last (str_split extra_paths_key m)))"
    by (auto simp: extract_settings_def split: option.splits)
  let ?u = "last (str_split extra_paths_key m)"
  have key: "extra_paths_key \<noteq> []" by (simp add: extra_paths_key_def)
  have "?u \<in> set (str_split extra_paths_key m)"
    by (simp add: str_split_nonempty)
  then have u: "set ?u \<subseteq> set m" by (rule str_split_pieces [OF key])
  have "t \<in> set (str_split '']'' ?u)"
    unfolding t by (simp add: str_split_nonempty)
  then have "set t \<subseteq> set ?u" by (rule str_split_pieces [rotated]) simp
  also note u
  also have "set m \<subseteq> set sec"
    using re_search_Some [OF found] by auto
  finally show ?thesis .
qed

lemma backslash_path_names:
  assumes "backslash \<notin> set d" and "backslash \<notin> set settings"
  shows "backslash \<notin> set (path_names_of d settings)"
proof -
  let ?names = "map (\<lambda>path_name. [dquote] @ d @ ''/'' @ path_name @ [dquote])
      (filter (\<lambda>path_name. length path_name > 0)
         (map (\<lambda>path_name. str_strip_chars [dquote] (str_strip path_name))
            (str_split '','' settings)))"
  have piece: "backslash \<notin> set p" if "p \<in> set (str_split '','' settings)" for p
    using str_split_pieces [OF _ that] assms(2) by auto
  have stripped: "backslash \<notin> set (str_strip_chars [dquote] (str_strip p))"
    if "p \<in> set (str_split '','' settings)" for p
    using piece [OF that] set_strip_with [of is_space p]
      set_strip_with [of "\<lambda>c. c \<in> set [dquote]" "strip_with is_space p"]
    by (auto simp: str_strip_def str_strip_chars_def)
  have "backslash \<notin> set n" if "n \<in> set ?names" for n
    using that stripped assms(1) by (auto simp: dquote_def backslash_def)
  moreover have "backslash \<notin> set '',\<newline>        ''" by (simp add: backslash_def)
  ultimately have "backslash \<notin> set (str_join '',\<newline>        '' ?names)"
    using set_str_join [of "'',\<newline>        ''" ?names] by blast
  then show ?thesis
    by (simp add: path_names_of_def Let_def expandtabs_separator)
qed

lemma backslash_extra_paths_literal:
  "backslash \<notin> set names \<Longrightarrow> backslash \<notin> set (extra_paths_literal names)"
  by (simp add: extra_paths_literal_eq extra_paths_key_def backslash_def)

lemma replace_extra_paths_plain:
  assumes "backslash \<notin> set d" and "backslash \<notin> set sec"
    and "extract_settings sec = Inr settings"
  shows "replace_extra_paths ws d sec
     = Inr (sub_scan extra_paths_rx (lits (extra_paths_literal (path_names_of d settings))) ws)"
proof -
  from extract_settings_subset [OF assms(3)] assms(2)
  have "backslash \<notin> set settings" by blast
  from backslash_extra_paths_literal [OF backslash_path_names [OF assms(1) this]]
  show ?thesis by (simp add: replace_extra_paths_def assms(3) re_sub_plain)
qed


lemma sub_scan_literal_first:
  assumes "L \<noteq> []" and "no_earlier (starts_with L) pre (L @ post)"
  shows "sub_scan (re_escape L) (lits new) (pre @ L @ post)
     = pre @ new @ sub_scan (re_escape L) (lits new) post"
  using sub_scan_match [OF literal_search_first [OF assms(2)] assms(1), of "lits new"]
  by simp

subsection \<open>What a run writes\<close>

lemma launch_template_not_settings: "launch_template_path ws_dir \<noteq> settings_path ws_dir"
proof
  assume eq: "launch_template_path ws_dir = settings_path ws_dir"
  obtain p where p: "launch_template_path ws_dir = p @ ''launch.template.json''"
    using launch_template_path_suffix by blast
  obtain q where q: "settings_path ws_dir = q @ ''settings.json''"
    using settings_path_suffix by blast
  from eq p q have "(p @ ''launch.temp'') @ ''late.json'' = (q @ ''sett'') @ ''ings.json''"
    by simp
  then have "''late.json'' = ''ings.json''" by (rule same_length_suffix) simp
  then show False by simp
qed

lemma copy_launch_other_files:
  "p \<noteq> launch_path ws_dir \<Longrightarrow> files (snd (copy_launch ws_dir w)) p = files w p"
  by (auto simp: copy_launch_def path_exists_def read_file_def write_file_def
      split: option.splits)

lemma copy_launch_stamps:
  assumes "fst (copy_launch ws_dir w) = None" and "files w (launch_path ws_dir) = None"
  shows "\<exists>t. files w (launch_template_path ws_dir) = Some t
     \<and> files (snd (copy_launch ws_dir w)) (launch_path ws_dir)
         = Some (header_msg (launch_template_path ws_dir) @ t)"
  using assms
  by (auto simp: copy_launch_def path_exists_def read_file_def write_file_def
      split: option.splits)

lemma main_stamps_outputs:
  assumes "fst (main ws_dir orbit_path w) = None"
  shows "(\<exists>body. files (snd (main ws_dir orbit_path w)) (settings_path ws_dir)
            = Some (header_msg (settings_template_path ws_dir) @ body))
     \<and> (files w (launch_path ws_dir) = None
          \<longrightarrow> (\<exists>t. files w (launch_template_path ws_dir) = Some t
                \<and> files (snd (main ws_dir orbit_path w)) (launch_path ws_dir)
                    = Some (header_msg (launch_template_path ws_dir) @ t)))"
proof -
  obtain evs body where m: "main ws_dir orbit_path w
       = copy_launch ws_dir
           (write_file (settings_path ws_dir)
              (header_msg (settings_template_path ws_dir) @ body)
              (w\<lparr>log := log w @ evs\<rparr>))"
    using main_shape [of ws_dir orbit_path w] assms by auto
  let ?w' = "write_file (settings_path ws_dir)
              (header_msg (settings_template_path ws_dir) @ body) (w\<lparr>log := log w @ evs\<rparr>)"
  have "files (snd (main ws_dir orbit_path w)) (settings_path ws_dir)
      = Some (header_msg (settings_template_path ws_dir) @ body)"
    unfolding m
    using copy_launch_other_files [of "settings_path ws_dir" ws_dir ?w']
      launch_not_settings [of ws_dir]
    by (simp add: write_file_def)
  moreover have "\<exists>t. files w (launch_template_path ws_dir) = Some t
        \<and> files (snd (main ws_dir orbit_path w)) (launch_path ws_dir)
            = Some (header_msg (launch_template_path ws_dir) @ t)"
    if absent: "files w (launch_path ws_dir) = None"
  proof -
    have 1: "files ?w' (launch_path ws_dir) = None"
      using absent launch_not_settings [of ws_dir] by (simp add: write_file_def)
    have 2: "fst (copy_launch ws_dir ?w') = None"
      using assms unfolding m .
    have 3: "files ?w' (launch_template_path ws_dir) = files w (launch_template_path ws_dir)"
      using launch_template_not_settings [of ws_dir] by (simp add: write_file_def)
    from copy_launch_stamps [OF 2 1] show ?thesis
      unfolding m 3 .
  qed
  ultimately show ?thesis by blast
qed

section \<open>The claims\<close>

subsection \<open>The header block\<close>

text \<open>
  Claim C9. For every source path string, the header block begins with the fixed comment
  marker \<^verbatim>\<open>// This file is a template\<close> and contains the source path, as it is, in its
  line \<^verbatim>\<open>// Generated from:\<close>, which is the last line of the block. It is this block that a
  run puts in front of what it writes: after a run that ends without an exception the
  settings file starts with the block for the settings template, and the launch file, when
  it was absent before, is the block for the launch template followed by that template.
\<close>

theorem header_msg_marker_and_source:
  "(\<exists>rest. header_msg src = ''// This file is a template'' @ rest)
   \<and> (\<exists>before. header_msg src = before @ ''// Generated from: '' @ src @ ''\<newline>'')
   \<and> (fst (main ws_dir orbit_path w) = None
        \<longrightarrow> (\<exists>body. files (snd (main ws_dir orbit_path w)) (settings_path ws_dir)
                  = Some (header_msg (settings_template_path ws_dir) @ body))
          \<and> (files w (launch_path ws_dir) = None
               \<longrightarrow> (\<exists>t. files w (launch_template_path ws_dir) = Some t
                     \<and> files (snd (main ws_dir orbit_path w)) (launch_path ws_dir)
                         = Some (header_msg (launch_template_path ws_dir) @ t))))"
  using main_stamps_outputs [of ws_dir orbit_path w]
  by (simp add: header_msg_def)

text \<open>
  A witness: a run in a workspace with both templates and a secondary settings file.
\<close>

theorem header_msg_marker_and_source_witness:
  "(\<exists>body. files (snd (main ''/ws'' (Some ''/opt/toolkit'')
        (example_world
          [(''/ws/.vscode/tools/settings.template.json'', extra_paths_key @ '']''),
           (''/opt/toolkit/_isaac_sim/.vscode/settings.json'',
            extra_paths_key @ quoted ''a'' @ '']''),
           (''/ws/.vscode/tools/launch.template.json'', ''{}'')])))
       ''/ws/.vscode/settings.json''
      = Some (header_msg ''/ws/.vscode/tools/settings.template.json'' @ body))
   \<and> files (snd (main ''/ws'' (Some ''/opt/toolkit'')
        (example_world
          [(''/ws/.vscode/tools/settings.template.json'', extra_paths_key @ '']''),
           (''/opt/toolkit/_isaac_sim/.vscode/settings.json'',
            extra_paths_key @ quoted ''a'' @ '']''),
           (''/ws/.vscode/tools/launch.template.json'', ''{}'')])))
       ''/ws/.vscode/launch.json''
      = Some (header_msg ''/ws/.vscode/tools/launch.template.json'' @ ''{}'')"
proof -
  let ?w = "example_world
          [(''/ws/.vscode/tools/settings.template.json'', extra_paths_key @ '']''),
           (''/opt/toolkit/_isaac_sim/.vscode/settings.json'',
            extra_paths_key @ quoted ''a'' @ '']''),
           (''/ws/.vscode/tools/launch.template.json'', ''{}'')]"
  have ok: "fst (main ''/ws'' (Some ''/opt/toolkit'') ?w) = None"
    by code_simp
  have names: "settings_path ''/ws'' = ''/ws/.vscode/settings.json''"
    "settings_template_path ''/ws'' = ''/ws/.vscode/tools/settings.template.json''"
    "launch_path ''/ws'' = ''/ws/.vscode/launch.json''"
    "launch_template_path ''/ws'' = ''/ws/.vscode/tools/launch.template.json''"
    by code_simp+
  have absent: "files ?w (launch_path ''/ws'') = None"
    and tmpl: "files ?w (launch_template_path ''/ws'') = Some ''{}''"
    unfolding names by (simp_all add: example_world_def)
  from header_msg_marker_and_source [of "[]" "''/ws''" "Some ''/opt/toolkit''" ?w] ok absent tmpl
  show ?thesis unfolding names by auto
qed

subsection \<open>The default interpreter path\<close>

text \<open>
  Claim C4. A settings document that contains the expected key and value, rewritten with
  the base directory \<^verbatim>\<open>/opt/toolkit\<close>, is a document in which the key is followed by the quoted
  path \<^verbatim>\<open>/opt/toolkit/python.sh\<close>: the text before the first occurrence of the literal is
  kept, the occurrence is replaced, and what follows is the rewriting of the rest.
\<close>

theorem interpreter_path_rewritten:
  "\<exists>a b r. pre @ interpreter_literal @ post = a @ interpreter_literal @ b
     \<and> overwrite_python_default_interpreter_path b ''/opt/toolkit'' = Inr r
     \<and> overwrite_python_default_interpreter_path (pre @ interpreter_literal @ post) ''/opt/toolkit''
         = Inr (a @ default_python_interpreter_key @ quoted ''/opt/toolkit/python.sh'' @ r)"
proof -
  let ?s = "pre @ interpreter_literal @ post"
  let ?p = "re_escape interpreter_literal"
  let ?t = "lits (new_interpreter_path ''/opt/toolkit'')"
  obtain a b where found: "re_search ?p ?s = Some (a, interpreter_literal, b)"
    and split: "?s = a @ interpreter_literal @ b"
    using literal_search_some [of ?s pre interpreter_literal post] by blast
  have "sub_scan ?p ?t ?s = a @ new_interpreter_path ''/opt/toolkit'' @ sub_scan ?p ?t b"
    using sub_scan_match [OF found interpreter_literal_nonempty, of ?t] by simp
  then have "overwrite_python_default_interpreter_path ?s ''/opt/toolkit''
      = Inr (a @ default_python_interpreter_key @ quoted ''/opt/toolkit/python.sh''
               @ sub_scan ?p ?t b)"
    by (simp add: interpreter_sub_toolkit new_interpreter_path_toolkit)
  with split interpreter_sub_toolkit [of b] show ?thesis by blast
qed

text \<open>
  Claim C5 says that a document without the expected literal comes back unchanged and that
  no error is raised. That holds whenever the base directory has no backslash in it:
\<close>

lemma interpreter_path_unchanged_without_literal:
  assumes "\<not> (\<exists>a b. ws = a @ interpreter_literal @ b)" and "backslash \<notin> set d"
  shows "overwrite_python_default_interpreter_path ws d = Inr ws"
  using literal_search_none [OF assms(1)] interpreter_sub_plain [OF assms(2)]
  by (simp add: sub_scan_no_match)

text \<open>
  Claim C5, at a base directory with a backslash. The replacement text is built from the
  directory and handed to \<^verbatim>\<open>re.sub\<close> as a template, which is parsed before any search is
  made: for the directory \<^verbatim>\<open>/opt/tool\kit\<close> the escape \<^verbatim>\<open>\k\<close> is rejected, and the call
  raises although the document \<^verbatim>\<open>{}\<close> does not contain the literal.
\<close>

theorem interpreter_path_bad_escape:
  "\<not> (\<exists>a b. ''{}'' = a @ interpreter_literal @ b)
   \<and> overwrite_python_default_interpreter_path ''{}'' (''/opt/tool'' @ [backslash] @ ''kit'')
       = Inl TemplateError"
proof
  show "\<not> (\<exists>a b. ''{}'' = a @ interpreter_literal @ b)"
  proof
    assume "\<exists>a b. ''{}'' = a @ interpreter_literal @ b"
    then obtain a b where "''{}'' = a @ interpreter_literal @ b" by blast
    then have "length ''{}'' = length (a @ interpreter_literal @ b)" by (rule arg_cong)
    then show False
      by (simp add: interpreter_literal_def default_python_interpreter_key_def
          default_python_interpreter_value_def)
  qed
  show "overwrite_python_default_interpreter_path ''{}'' (''/opt/tool'' @ [backslash] @ ''kit'')
       = Inl TemplateError"
    by code_simp
qed

subsection \<open>The region that is extracted\<close>

text \<open>
  Claim C6. In a secondary settings file that contains the marker (the key, its two dots
  matching any character) followed by a bracketed list, the search finds the region that
  runs from the first marker to the first closing bracket after it, and no further: here
  \<open>body\<close> is the text between the marker and that bracket, and \<open>post\<close>, which may hold more
  closing brackets, is left out. So a path entry with a closing bracket in it cuts the
  list short at that character. When the marker is the key itself and the list has no
  opening bracket in it, the text that is extracted is exactly \<open>body\<close>.
\<close>

theorem extra_paths_region_ends_at_first_bracket:
  assumes "is_marker m" and "CHR '']'' \<notin> set body"
    and "no_earlier marker_here pre (m @ body @ CHR '']'' # post)"
  shows "re_search extra_paths_rx (pre @ m @ body @ CHR '']'' # post)
           = Some (pre, m @ body @ '']'', post)
       \<and> (m = extra_paths_key \<and> CHR ''['' \<notin> set body
            \<longrightarrow> extract_settings (pre @ m @ body @ CHR '']'' # post) = Inr body)"
  using marker_search_first [OF assms] extract_settings_key [OF assms(2) _, of pre post] assms(3)
  by blast

text \<open>
  A witness: the list holds the one entry \<^verbatim>\<open>"x]y"\<close>; the region ends after \<^verbatim>\<open>"x\<close>, and the
  text extracted is \<^verbatim>\<open>"x\<close>.
\<close>

theorem extra_paths_region_ends_at_first_bracket_witness:
  "re_search extra_paths_rx
      (''{ '' @ extra_paths_key @ (dquote # ''x'') @ CHR '']'' # (''y'' @ [dquote] @ '']}''))
     = Some (''{ '', extra_paths_key @ (dquote # ''x'') @ '']'', ''y'' @ [dquote] @ '']}'')
   \<and> extract_settings
      (''{ '' @ extra_paths_key @ (dquote # ''x'') @ CHR '']'' # (''y'' @ [dquote] @ '']}''))
     = Inr (dquote # ''x'')"
proof -
  have body: "CHR '']'' \<notin> set (dquote # ''x'')" "CHR ''['' \<notin> set (dquote # ''x'')"
    by (simp_all add: dquote_def)
  have first: "no_earlier marker_here ''{ ''
      (extra_paths_key @ (dquote # ''x'') @ CHR '']'' # (''y'' @ [dquote] @ '']}''))"
    by (rule not_marker_here_example)
  from extra_paths_region_ends_at_first_bracket [OF is_marker_key body(1) first] body(2)
  show ?thesis by blast
qed

subsection \<open>The extra paths\<close>

text \<open>
  Claim C1. The secondary settings file under \<^verbatim>\<open>/opt/toolkit\<close> holds, as its first marker
  region, the key followed by a list with the entries \<^verbatim>\<open>"a"\<close> and \<^verbatim>\<open>"b"\<close> (any white space
  around them). The template has its first marker region after \<open>tpre\<close>, with the list text
  \<open>body\<close>. Then the call returns the template with \<open>tpre\<close> unchanged, the region replaced by
  the list of \<^verbatim>\<open>"/opt/toolkit/a"\<close> and \<^verbatim>\<open>"/opt/toolkit/b"\<close>, and after it the result \<open>r\<close> of the
  same call on the rest \<open>tpost\<close> of the template; \<open>r\<close> is \<open>tpost\<close> itself when \<open>tpost\<close> has no
  further marker region. (A settings document has the marker key and its list, as the
  data model of the specification says.)
\<close>

theorem extra_paths_rewritten:
  assumes "files w ''/opt/toolkit/.vscode/settings.json''
             = Some (spre @ extra_paths_key @ two_entries ws0 ws1 ws2 ws3 @ CHR '']'' # spost)"
    and "list_all is_space ws0" "list_all is_space ws1"
    and "list_all is_space ws2" "list_all is_space ws3"
    and "no_earlier marker_here spre
           (extra_paths_key @ two_entries ws0 ws1 ws2 ws3 @ CHR '']'' # spost)"
    and "is_marker m" and "CHR '']'' \<notin> set body"
    and "no_earlier marker_here tpre (m @ body @ CHR '']'' # tpost)"
  shows "\<exists>r w'.
      overwrite_python_analysis_extra_paths tpost ''/opt/toolkit'' w = (Inr r, w')
    \<and> overwrite_python_analysis_extra_paths (tpre @ m @ body @ CHR '']'' # tpost)
          ''/opt/toolkit'' w = (Inr (tpre @ toolkit_list @ r), w')
    \<and> (re_search extra_paths_rx tpost = None \<longrightarrow> r = tpost)"
proof -
  let ?sec = "spre @ extra_paths_key @ two_entries ws0 ws1 ws2 ws3 @ CHR '']'' # spost"
  let ?r = "sub_scan extra_paths_rx (lits toolkit_list) tpost"
  have secfile: "files w (isaacsim_vscode_filename ''/opt/toolkit'') = Some ?sec"
    using assms(1) by (simp only: isaacsim_vscode_filename_toolkit)
  have run: "overwrite_python_analysis_extra_paths ws ''/opt/toolkit'' w
      = (Inr (sub_scan extra_paths_rx (lits toolkit_list) ws),
         w\<lparr>log := log w @ [Exists (isaacsim_vscode_filename ''/opt/toolkit''),
                             Read (isaacsim_vscode_filename ''/opt/toolkit'')]\<rparr>)" for ws
    by (simp only: overwrite_reads_secondary [OF secfile] replace_extra_paths_two [OF assms(2-6)])
  have "sub_scan extra_paths_rx (lits toolkit_list) (tpre @ m @ body @ CHR '']'' # tpost)
      = tpre @ toolkit_list @ ?r"
    by (rule sub_scan_marker_first [OF assms(7-9)])
  moreover have "re_search extra_paths_rx tpost = None \<longrightarrow> ?r = tpost"
    by (simp add: sub_scan_no_match)
  ultimately show ?thesis
    using run [of tpost] run [of "tpre @ m @ body @ CHR '']'' # tpost"] by metis
qed

text \<open>
  A witness: the template \<^verbatim>\<open>{ "python.analysis.extraPaths": [old] }\<close> and the secondary file
  \<^verbatim>\<open>{ "python.analysis.extraPaths": [ "a", "b" ]}\<close>.
\<close>

theorem extra_paths_rewritten_witness:
  "fst (overwrite_python_analysis_extra_paths
          (''{ '' @ extra_paths_key @ ''old'' @ CHR '']'' # '' }'') ''/opt/toolkit''
          (example_world
            [(''/opt/toolkit/.vscode/settings.json'',
              ''{ '' @ extra_paths_key @ two_entries '' '' [] '' '' '' '' @ CHR '']'' # ''}'')]))
     = Inr (''{ '' @ toolkit_list @ '' }'')"
proof -
  let ?w = "example_world
            [(''/opt/toolkit/.vscode/settings.json'',
              ''{ '' @ extra_paths_key @ two_entries '' '' [] '' '' '' '' @ CHR '']'' # ''}'')]"
  have secfile: "files ?w ''/opt/toolkit/.vscode/settings.json''
      = Some (''{ '' @ extra_paths_key @ two_entries '' '' [] '' '' '' '' @ CHR '']'' # ''}'')"
    by (simp add: example_world_def)
  have sp: "list_all is_space '' ''" "list_all is_space []"
    by simp_all
  have s1: "no_earlier marker_here ''{ ''
      (extra_paths_key @ two_entries '' '' [] '' '' '' '' @ CHR '']'' # ''}'')"
    by (rule not_marker_here_example)
  have body: "CHR '']'' \<notin> set ''old''"
    by simp
  have t1: "no_earlier marker_here ''{ '' (extra_paths_key @ ''old'' @ CHR '']'' # '' }'')"
    by (rule not_marker_here_example)
  have rest: "re_search extra_paths_rx '' }'' = None"
    by code_simp
  from extra_paths_rewritten [OF secfile sp(1) sp(2) sp(1) sp(1) s1 is_marker_key body t1] rest
  show ?thesis by auto
qed

text \<open>
  Claim C10. The list text is cut at every comma, quoted or not: the number of pieces is
  the number of commas plus one. So a secondary settings file whose list holds the single
  quoted entry \<^verbatim>\<open>"a,b"\<close> yields the two entries \<^verbatim>\<open>"/opt/toolkit/a"\<close> and \<^verbatim>\<open>"/opt/toolkit/b"\<close>.
\<close>

theorem comma_inside_quotes_splits_entry:
  "length (str_split '','' s) = Suc (count_list s CHR '','')
   \<and> fst (overwrite_python_analysis_extra_paths (extra_paths_key @ '']'') ''/opt/toolkit''
          (example_world
            [(''/opt/toolkit/.vscode/settings.json'',
              extra_paths_key @ quoted ''a,b'' @ '']'')]))
       = Inr toolkit_list"
proof
  show "length (str_split '','' s) = Suc (count_list s CHR '','')"
    by (rule str_split_comma_count)
  show "fst (overwrite_python_analysis_extra_paths (extra_paths_key @ '']'') ''/opt/toolkit''
          (example_world
            [(''/opt/toolkit/.vscode/settings.json'',
              extra_paths_key @ quoted ''a,b'' @ '']'')]))
       = Inr toolkit_list"
    by code_simp
qed

subsection \<open>Documents without the marker\<close>

text \<open>
  Claim C7 has two parts. The first holds as stated: a secondary settings file that is
  there but has no marker region makes the call end in the attribute error of the failed
  search, not in the missing-file error.
\<close>

lemma secondary_without_marker:
  assumes "files w (isaacsim_vscode_filename d) = Some sec"
    and "re_search extra_paths_rx sec = None"
  shows "fst (overwrite_python_analysis_extra_paths ws d w) = Inl AttributeError"
  using assms
  by (simp add: overwrite_reads_secondary replace_extra_paths_def extract_settings_def)

text \<open>
  The second part says that a template with no marker region is left as it is. Whenever
  the call returns a document, that document is the template:
\<close>

lemma template_without_marker:
  assumes "re_search extra_paths_rx ws = None"
    and "fst (overwrite_python_analysis_extra_paths ws d w) = Inr out"
  shows "out = ws"
proof -
  from assms(2) obtain settings where
    "re_sub extra_paths_rx (extra_paths_literal (path_names_of d settings)) ws = Inr out"
    by (auto simp: overwrite_python_analysis_extra_paths_def path_exists_def read_file_def
        replace_extra_paths_def split: if_splits option.splits sum.splits)
  with assms(1) show ?thesis by (rule re_sub_no_match)
qed

text \<open>
  Claim C7, second part, at a base directory with a backslash. The list literal is built
  from the directory and handed to \<^verbatim>\<open>re.sub\<close> as a template; the template is parsed before
  the search, and for the directory \<^verbatim>\<open>/opt/tool\kit\<close> the escape \<^verbatim>\<open>\k\<close> is rejected. The call
  raises although the template \<^verbatim>\<open>{}\<close> has no marker region and the secondary file is well
  formed.
\<close>

theorem template_without_marker_bad_escape:
  "re_search extra_paths_rx ''{}'' = None
   \<and> fst (overwrite_python_analysis_extra_paths ''{}'' (''/opt/tool'' @ [backslash] @ ''kit'')
          (example_world
            [(''/opt/tool'' @ [backslash] @ ''kit/.vscode/settings.json'',
              extra_paths_key @ quoted ''a'' @ '']'')]))
       = Inl TemplateError"
  by code_simp

subsection \<open>The files of a run\<close>

text \<open>
  Claim C2. When the secondary settings file, at \<^verbatim>\<open>.vscode/settings.json\<close> under the base
  directory, does not exist, the call ends in the missing-file error whose message names
  that path, and changes no file. A run of \<open>main\<close> with that base directory then ends in an
  exception, leaves every file as it was, the destination settings file among them, and
  makes no write at all.
\<close>

theorem missing_secondary_file_aborts:
  assumes "files w (isaacsim_vscode_filename d) = None"
  shows "fst (overwrite_python_analysis_extra_paths ws d w)
       = Inl (FileNotFoundError
               (''Could not find the isaac-sim settings file: '' @ isaacsim_vscode_filename d))
     \<and> isaacsim_vscode_filename d
       = (if d = [] \<or> ends_with ''/'' d then d else d @ ''/'') @ ''.vscode/settings.json''
     \<and> files (snd (overwrite_python_analysis_extra_paths ws d w)) = files w
     \<and> (d = path_join orbit [''_isaac_sim'']
          \<longrightarrow> fst (main ws_dir (Some orbit) w) \<noteq> None
            \<and> files (snd (main ws_dir (Some orbit) w)) = files w
            \<and> (\<exists>evs. log (snd (main ws_dir (Some orbit) w)) = log w @ evs
                  \<and> (\<forall>p. Write p \<notin> set evs)))"
proof -
  have "d = path_join orbit [''_isaac_sim'']
          \<longrightarrow> fst (main ws_dir (Some orbit) w) \<noteq> None
            \<and> files (snd (main ws_dir (Some orbit) w)) = files w
            \<and> (\<exists>evs. log (snd (main ws_dir (Some orbit) w)) = log w @ evs
                  \<and> (\<forall>p. Write p \<notin> set evs))"
  proof
    assume d: "d = path_join orbit [''_isaac_sim'']"
    from main_missing_secondary [OF assms [unfolded d], of ws_dir]
    obtain e evs where "main ws_dir (Some orbit) w = (Some e, w\<lparr>log := log w @ evs\<rparr>)"
      and "\<forall>p. Write p \<notin> set evs" by blast
    then show "fst (main ws_dir (Some orbit) w) \<noteq> None
            \<and> files (snd (main ws_dir (Some orbit) w)) = files w
            \<and> (\<exists>evs. log (snd (main ws_dir (Some orbit) w)) = log w @ evs
                  \<and> (\<forall>p. Write p \<notin> set evs))"
      by auto
  qed
  then show ?thesis
    using overwrite_missing_secondary [OF assms, of ws] isaacsim_vscode_filename_eq [of d]
    by simp
qed

text \<open>
  A witness: a workspace with a settings template and no secondary settings file.
\<close>

theorem missing_secondary_file_aborts_witness:
  "fst (overwrite_python_analysis_extra_paths ''{}'' ''/opt/toolkit/_isaac_sim''
          (example_world [(''/ws/.vscode/tools/settings.template.json'', ''{}'')]))
     = Inl (FileNotFoundError
             (''Could not find the isaac-sim settings file: ''
                @ ''/opt/toolkit/_isaac_sim/.vscode/settings.json''))
   \<and> fst (main ''/ws'' (Some ''/opt/toolkit'')
          (example_world [(''/ws/.vscode/tools/settings.template.json'', ''{}'')])) \<noteq> None
   \<and> files (snd (main ''/ws'' (Some ''/opt/toolkit'')
          (example_world [(''/ws/.vscode/tools/settings.template.json'', ''{}'')])))
     = files (example_world [(''/ws/.vscode/tools/settings.template.json'', ''{}'')])"
proof -
  let ?w = "example_world [(''/ws/.vscode/tools/settings.template.json'', ''{}'')]"
  have name: "isaacsim_vscode_filename ''/opt/toolkit/_isaac_sim''
      = ''/opt/toolkit/_isaac_sim/.vscode/settings.json''"
    by code_simp
  have absent: "files ?w (isaacsim_vscode_filename ''/opt/toolkit/_isaac_sim'') = None"
    unfolding name by (simp add: example_world_def)
  have dir: "''/opt/toolkit/_isaac_sim'' = path_join ''/opt/toolkit'' [''_isaac_sim'']"
    by code_simp
  from missing_secondary_file_aborts [OF absent, of "''{}''" "''/opt/toolkit''" "''/ws''"] dir name
  show ?thesis by simp
qed

text \<open>
  Claim C8. When the launch file exists, a run leaves its content as it is, and among the
  file operations of the run there is no read and no write of it (its existence is
  tested, nothing more). So after a second run the content is what it was after the first.
\<close>

theorem existing_launch_file_untouched:
  assumes "files w (launch_path ws_dir) = Some content"
  shows "files (snd (main ws_dir orbit_path w)) (launch_path ws_dir) = Some content
     \<and> (\<exists>evs. log (snd (main ws_dir orbit_path w)) = log w @ evs
           \<and> Read (launch_path ws_dir) \<notin> set evs \<and> Write (launch_path ws_dir) \<notin> set evs)
     \<and> files (snd (main ws_dir orbit_path (snd (main ws_dir orbit_path w)))) (launch_path ws_dir)
         = files (snd (main ws_dir orbit_path w)) (launch_path ws_dir)"
proof -
  note first = main_launch_untouched [OF assms, of orbit_path]
  then have "files (snd (main ws_dir orbit_path w)) (launch_path ws_dir) = Some content"
    by (rule conjunct1)
  from main_launch_untouched [OF this, of orbit_path] first show ?thesis
    by simp
qed

text \<open>
  A witness: a workspace with both templates' inputs and a launch file of the user's own.
\<close>

theorem existing_launch_file_untouched_witness:
  "files (snd (main ''/ws'' (Some ''/opt/toolkit'')
       (example_world
          [(''/ws/.vscode/tools/settings.template.json'', extra_paths_key @ '']''),
           (''/opt/toolkit/_isaac_sim/.vscode/settings.json'',
            extra_paths_key @ quoted ''a'' @ '']''),
           (''/ws/.vscode/launch.json'', ''mine'')]))) ''/ws/.vscode/launch.json''
     = Some ''mine''
   \<and> files (snd (main ''/ws'' (Some ''/opt/toolkit'')
       (snd (main ''/ws'' (Some ''/opt/toolkit'')
          (example_world
          [(''/ws/.vscode/tools/settings.template.json'', extra_paths_key @ '']''),
           (''/opt/toolkit/_isaac_sim/.vscode/settings.json'',
            extra_paths_key @ quoted ''a'' @ '']''),
           (''/ws/.vscode/launch.json'', ''mine'')])))))
       ''/ws/.vscode/launch.json''
     = Some ''mine''"
proof -
  let ?w = "example_world
          [(''/ws/.vscode/tools/settings.template.json'', extra_paths_key @ '']''),
           (''/opt/toolkit/_isaac_sim/.vscode/settings.json'',
            extra_paths_key @ quoted ''a'' @ '']''),
           (''/ws/.vscode/launch.json'', ''mine'')]"
  have name: "launch_path ''/ws'' = ''/ws/.vscode/launch.json''"
    by code_simp
  have present: "files ?w (launch_path ''/ws'') = Some ''mine''"
    unfolding name by (simp add: example_world_def)
  from existing_launch_file_untouched [OF present, of "Some ''/opt/toolkit''"]
  show ?thesis unfolding name by simp
qed

subsection \<open>Which occurrences are replaced\<close>

text \<open>
  Claim C3 says that each of the two substitutions replaces the first occurrence of its
  pattern only, and leaves later occurrences as they are. Both are calls of \<^verbatim>\<open>re.sub\<close> with
  no \<^verbatim>\<open>count\<close>, which replaces every occurrence. In a document made of the key/value literal
  twice both are replaced, where the claim would leave the second; and in a template made
  of two marker regions both are replaced by the new list.
\<close>

theorem later_occurrences_counterexample:
  "overwrite_python_default_interpreter_path (interpreter_literal @ interpreter_literal)
       ''/opt/toolkit''
     = Inr (new_interpreter_path ''/opt/toolkit'' @ new_interpreter_path ''/opt/toolkit'')
   \<and> new_interpreter_path ''/opt/toolkit'' @ new_interpreter_path ''/opt/toolkit''
       \<noteq> new_interpreter_path ''/opt/toolkit'' @ interpreter_literal
   \<and> fst (overwrite_python_analysis_extra_paths
            ((extra_paths_key @ '']'') @ (extra_paths_key @ '']'')) ''/opt/toolkit''
            (example_world
              [(''/opt/toolkit/.vscode/settings.json'',
                extra_paths_key @ two_entries [] [] [] [] @ '']'')]))
     = Inr (toolkit_list @ toolkit_list)
   \<and> toolkit_list @ toolkit_list \<noteq> toolkit_list @ (extra_paths_key @ '']'')"
  by code_simp

text \<open>
  Claim C3, amended. Each substitution replaces every occurrence of its pattern that does
  not overlap an earlier one, scanning from the left: the text before the first occurrence
  is kept, the occurrence is replaced, and the text after it is rewritten by the same
  call, so that a later occurrence is replaced as well. This is stated for a base
  directory and a secondary settings file without a backslash, hence for a replacement
  text that \<^verbatim>\<open>re.sub\<close> takes literally.
\<close>

theorem every_occurrence_replaced:
  assumes "backslash \<notin> set d"
  shows "(no_earlier (starts_with interpreter_literal) pre (interpreter_literal @ post)
          \<longrightarrow> (\<exists>r. overwrite_python_default_interpreter_path post d = Inr r
                \<and> overwrite_python_default_interpreter_path (pre @ interpreter_literal @ post) d
                    = Inr (pre @ new_interpreter_path d @ r)))
     \<and> (files w (isaacsim_vscode_filename d) = Some sec \<and> backslash \<notin> set sec
          \<and> extract_settings sec = Inr settings
          \<and> is_marker m \<and> CHR '']'' \<notin> set body
          \<and> no_earlier marker_here tpre (m @ body @ CHR '']'' # tpost)
          \<longrightarrow> (\<exists>r w'. overwrite_python_analysis_extra_paths tpost d w = (Inr r, w')
                \<and> overwrite_python_analysis_extra_paths (tpre @ m @ body @ CHR '']'' # tpost) d w
                    = (Inr (tpre @ extra_paths_literal (path_names_of d settings) @ r), w')))"
proof (intro conjI impI)
  assume "no_earlier (starts_with interpreter_literal) pre (interpreter_literal @ post)"
  from sub_scan_literal_first [OF interpreter_literal_nonempty this]
  show "\<exists>r. overwrite_python_default_interpreter_path post d = Inr r
          \<and> overwrite_python_default_interpreter_path (pre @ interpreter_literal @ post) d
              = Inr (pre @ new_interpreter_path d @ r)"
    by (simp add: interpreter_sub_plain [OF assms])
next
  assume a: "files w (isaacsim_vscode_filename d) = Some sec \<and> backslash \<notin> set sec
          \<and> extract_settings sec = Inr settings
          \<and> is_marker m \<and> CHR '']'' \<notin> set body
          \<and> no_earlier marker_here tpre (m @ body @ CHR '']'' # tpost)"
  let ?new = "extra_paths_literal (path_names_of d settings)"
  have run: "overwrite_python_analysis_extra_paths ws d w
      = (Inr (sub_scan extra_paths_rx (lits ?new) ws),
         w\<lparr>log := log w @ [Exists (isaacsim_vscode_filename d),
                             Read (isaacsim_vscode_filename d)]\<rparr>)" for ws
    using a by (simp add: overwrite_reads_secondary replace_extra_paths_plain [OF assms])
  have "sub_scan extra_paths_rx (lits ?new) (tpre @ m @ body @ CHR '']'' # tpost)
      = tpre @ ?new @ sub_scan extra_paths_rx (lits ?new) tpost"
    using a by (intro sub_scan_marker_first) simp_all
  then show "\<exists>r w'. overwrite_python_analysis_extra_paths tpost d w = (Inr r, w')
          \<and> overwrite_python_analysis_extra_paths (tpre @ m @ body @ CHR '']'' # tpost) d w
              = (Inr (tpre @ ?new @ r), w')"
    by (simp add: run)
qed

text \<open>
  A witness: a document with the literal twice, and a template with two marker regions.
\<close>

theorem every_occurrence_replaced_witness:
  "overwrite_python_default_interpreter_path
       (''{'' @ interpreter_literal @ interpreter_literal @ ''}'') ''/opt/toolkit''
     = Inr (''{'' @ new_interpreter_path ''/opt/toolkit''
              @ new_interpreter_path ''/opt/toolkit'' @ ''}'')
   \<and> fst (overwrite_python_analysis_extra_paths
            (''{ '' @ extra_paths_key @ ''x'' @ CHR '']'' # extra_paths_key @ ''y]'')
            ''/opt/toolkit''
            (example_world
              [(''/opt/toolkit/.vscode/settings.json'',
                extra_paths_key @ two_entries [] [] [] [] @ '']'')]))
     = Inr (''{ '' @ toolkit_list @ toolkit_list)"
proof -
  let ?sec = "extra_paths_key @ two_entries [] [] [] [] @ '']''"
  let ?w = "example_world [(''/opt/toolkit/.vscode/settings.json'', ?sec)]"
  have dir: "backslash \<notin> set ''/opt/toolkit''"
    by (simp add: backslash_def)
  note both = every_occurrence_replaced [OF dir, of "''{''" "interpreter_literal @ ''}''"
      ?w ?sec "two_entries [] [] [] []" extra_paths_key "''x''" "''{ ''" "extra_paths_key @ ''y]''"]
  have first: "no_earlier (starts_with interpreter_literal) ''{''
      (interpreter_literal @ interpreter_literal @ ''}'')"
    by code_simp
  have rest: "overwrite_python_default_interpreter_path (interpreter_literal @ ''}'')
      ''/opt/toolkit'' = Inr (new_interpreter_path ''/opt/toolkit'' @ ''}'')"
    by code_simp
  from both [THEN conjunct1, rule_format, OF first] rest
  have one: "overwrite_python_default_interpreter_path
       (''{'' @ interpreter_literal @ interpreter_literal @ ''}'') ''/opt/toolkit''
     = Inr (''{'' @ new_interpreter_path ''/opt/toolkit''
              @ new_interpreter_path ''/opt/toolkit'' @ ''}'')"
    by auto
  have secfile: "files ?w (isaacsim_vscode_filename ''/opt/toolkit'') = Some ?sec"
    by (simp add: isaacsim_vscode_filename_toolkit example_world_def)
  have clean: "backslash \<notin> set ?sec"
    by code_simp
  have settings: "extract_settings ?sec = Inr (two_entries [] [] [] [])"
    by code_simp
  have body: "CHR '']'' \<notin> set ''x''"
    by simp
  have region: "no_earlier marker_here ''{ ''
      (extra_paths_key @ ''x'' @ CHR '']'' # extra_paths_key @ ''y]'')"
    by (rule not_marker_here_example)
  have list: "extra_paths_literal (path_names_of ''/opt/toolkit'' (two_entries [] [] [] []))
      = toolkit_list"
    by code_simp
  have rest2: "fst (overwrite_python_analysis_extra_paths (extra_paths_key @ ''y]'')
      ''/opt/toolkit'' ?w) = Inr toolkit_list"
    by code_simp
  from both [THEN conjunct2, rule_format,
      OF conjI [OF secfile conjI [OF clean conjI [OF settings
           conjI [OF is_marker_key conjI [OF body region]]]]]] rest2
  have two: "fst (overwrite_python_analysis_extra_paths
            (''{ '' @ extra_paths_key @ ''x'' @ CHR '']'' # extra_paths_key @ ''y]'')
            ''/opt/toolkit'' ?w)
     = Inr (''{ '' @ toolkit_list @ toolkit_list)"
    unfolding list by auto
  from one two show ?thesis by blast
qed

end
